theory Spec2Isabelle
  imports Complex_Main "HOL-Library.Log_Nat"
begin

section \<open>Data model\<close>

text \<open>
  A shallow embedding of the flocking simulation (vector3d.c, particle.c, spatial_grid.c,
  main.c). C \<open>int\<close> values are modelled as unbounded integers; the grid dimensions and
  particle counts of the program are far from the 32-bit limits. A pointer to a struct
  that a function mutates becomes a value taken and a value returned.

  The C type \<open>float\<close> is modelled at two levels. The sections from here to the per-frame
  update compute in exact real numbers (no rounding, no infinity, no NaN); their
  statements concern the structure of the computation: which elements a loop visits, what
  the arrays of the grid hold, which branch leaves a value alone. The sections on binary32
  after them round after every operation, with infinities and NaN; the statements that
  depend on the computed values, the speed limit and the cell coordinates, are made there.
\<close>

text \<open>\<open>Vector3D\<close> of vector3d.h. The fields \<open>x\<close>, \<open>y\<close>, \<open>z\<close> are named \<open>xc\<close>, \<open>yc\<close>, \<open>zc\<close> here,
  so that the letters stay free for variables.\<close>

record Vector3D =
  xc :: real
  yc :: real
  zc :: real

text \<open>\<open>Particle\<close> of particle.h.\<close>

record Particle =
  position :: Vector3D
  velocity :: Vector3D
  acceleration :: Vector3D
  max_speed :: real
  max_force :: real

section \<open>vector3d.c\<close>

definition vec3_create :: "real \<Rightarrow> real \<Rightarrow> real \<Rightarrow> Vector3D" where
  "vec3_create a b c = \<lparr>xc = a, yc = b, zc = c\<rparr>"

definition vec3_add :: "Vector3D \<Rightarrow> Vector3D \<Rightarrow> Vector3D" where
  "vec3_add v1 v2 = \<lparr>xc = xc v1 + xc v2, yc = yc v1 + yc v2, zc = zc v1 + zc v2\<rparr>"

definition vec3_sub :: "Vector3D \<Rightarrow> Vector3D \<Rightarrow> Vector3D" where
  "vec3_sub v1 v2 = \<lparr>xc = xc v1 - xc v2, yc = yc v1 - yc v2, zc = zc v1 - zc v2\<rparr>"

definition vec3_mult :: "Vector3D \<Rightarrow> real \<Rightarrow> Vector3D" where
  "vec3_mult v n = \<lparr>xc = xc v * n, yc = yc v * n, zc = zc v * n\<rparr>"

text \<open>\<open>vec3_div\<close> leaves the vector alone when the divisor is zero.\<close>

definition vec3_div :: "Vector3D \<Rightarrow> real \<Rightarrow> Vector3D" where
  "vec3_div v n =
     (if n \<noteq> 0 then \<lparr>xc = xc v / n, yc = yc v / n, zc = zc v / n\<rparr> else v)"

definition vec3_mag :: "Vector3D \<Rightarrow> real" where
  "vec3_mag v = sqrt (xc v * xc v + yc v * yc v + zc v * zc v)"

definition vec3_mag_sq :: "Vector3D \<Rightarrow> real" where
  "vec3_mag_sq v = xc v * xc v + yc v * yc v + zc v * zc v"

definition vec3_normalize :: "Vector3D \<Rightarrow> Vector3D" where
  "vec3_normalize v = (let m = vec3_mag v in if m > 0 then vec3_div v m else v)"

definition vec3_limit :: "Vector3D \<Rightarrow> real \<Rightarrow> Vector3D" where
  "vec3_limit v mx =
     (let m = vec3_mag v in if m > mx then vec3_mult (vec3_normalize v) mx else v)"

definition vec3_set_mag :: "Vector3D \<Rightarrow> real \<Rightarrow> Vector3D" where
  "vec3_set_mag v mag = vec3_mult (vec3_normalize v) mag"

text \<open>\<open>vec3_dist_sq_inline\<close> of vector3d.h (the same body as \<open>vec3_dist_sq\<close>).\<close>

definition vec3_dist_sq_inline :: "Vector3D \<Rightarrow> Vector3D \<Rightarrow> real" where
  "vec3_dist_sq_inline v1 v2 =
     (let dx = xc v1 - xc v2; dy = yc v1 - yc v2; dz = zc v1 - zc v2
      in dx * dx + dy * dy + dz * dz)"

definition vec3_sub_new :: "Vector3D \<Rightarrow> Vector3D \<Rightarrow> Vector3D" where
  "vec3_sub_new v1 v2 = vec3_create (xc v1 - xc v2) (yc v1 - yc v2) (zc v1 - zc v2)"

definition vec3_copy :: "Vector3D \<Rightarrow> Vector3D" where
  "vec3_copy v = vec3_create (xc v) (yc v) (zc v)"

section \<open>particle.c: creation\<close>

text \<open>
  \<open>vec3_random3d\<close> and \<open>particle_create\<close>. The two calls of \<open>rand()\<close> are inputs of the
  model: \<open>r1\<close> and \<open>r2\<close> are the fractions \<open>rand() / RAND_MAX\<close>.
\<close>

definition vec3_random3d :: "real \<Rightarrow> real \<Rightarrow> Vector3D" where
  "vec3_random3d r1 r2 =
     (let theta = r1 * pi * 2;
          phi = r2 * pi
      in vec3_create (sin phi * cos theta) (sin phi * sin theta) (cos phi))"

definition particle_create :: "real \<Rightarrow> real \<Rightarrow> real \<Rightarrow> real \<Rightarrow> real \<Rightarrow> Particle" where
  "particle_create a b c r1 r2 =
     \<lparr>position = vec3_create a b c,
      velocity = vec3_mult (vec3_random3d r1 r2) 2,
      acceleration = vec3_create 0 0 0,
      max_speed = 4,
      max_force = 1 / 10\<rparr>"

section \<open>particle.c: integration and boundary wrap\<close>

text \<open>\<open>particle_update\<close>: velocity += acceleration; clamp to \<open>max_speed\<close>;
  position += velocity; acceleration *= 0.\<close>

definition particle_update :: "Particle \<Rightarrow> Particle" where
  "particle_update p =
     (let v1 = vec3_add (velocity p) (acceleration p);
          v2 = vec3_limit v1 (max_speed p);
          pos = vec3_add (position p) v2;
          acc = vec3_mult (acceleration p) 0
      in p\<lparr>position := pos, velocity := v2, acceleration := acc\<rparr>)"

text \<open>One axis of \<open>particle_wrap\<close>: the two \<open>if\<close> statements in the order of the source.\<close>

definition wrap_axis :: "real \<Rightarrow> real \<Rightarrow> real" where
  "wrap_axis c extent =
     (let c1 = (if c > extent then 0 else c)
      in if c1 < 0 then extent else c1)"

definition particle_wrap :: "Particle \<Rightarrow> real \<Rightarrow> real \<Rightarrow> real \<Rightarrow> Particle" where
  "particle_wrap p width height depth =
     p\<lparr>position := \<lparr>xc = wrap_axis (xc (position p)) width,
                     yc = wrap_axis (yc (position p)) height,
                     zc = wrap_axis (zc (position p)) depth\<rparr>\<rparr>"

section \<open>Arrays and loops\<close>

text \<open>
  A C array is a list. An access outside the array is undefined behaviour in C; the model
  makes it an error value, so that every theorem that gives a result also says that no
  access left its array. A conversion of a float that has no \<open>int\<close> value is an error too,
  and so is an allocation of a negative number of elements.
\<close>

datatype error = ReadOutOfBounds | WriteOutOfBounds | FloatToIntUndefined | AllocationFailed

definition array_read :: "'a list \<Rightarrow> int \<Rightarrow> error + 'a" where
  "array_read xs i =
     (if 0 \<le> i \<and> i < int (length xs) then Inr (xs ! nat i) else Inl ReadOutOfBounds)"

definition array_write :: "'a list \<Rightarrow> int \<Rightarrow> 'a \<Rightarrow> error + 'a list" where
  "array_write xs i v =
     (if 0 \<le> i \<and> i < int (length xs) then Inr (xs[nat i := v]) else Inl WriteOutOfBounds)"

text \<open>\<open>memset(a, b, sizeof(int) * n)\<close> with every byte 0 (value 0) or every byte 0xFF
  (value -1): the first \<open>n\<close> elements become \<open>v\<close>.\<close>

definition memset_int :: "int list \<Rightarrow> int \<Rightarrow> int \<Rightarrow> error + int list" where
  "memset_int xs v n =
     (if 0 \<le> n \<and> n \<le> int (length xs) then Inr (replicate (nat n) v @ drop (nat n) xs)
      else Inl WriteOutOfBounds)"

text \<open>
  \<open>for (i = a; i < b && c(state); i++) body\<close> is \<open>for_loop c body [a..<b] state\<close>: the
  condition is tested before every iteration, the loop ends at the first iteration where
  it fails, and an error in the body ends the run. A loop with no extra condition has
  \<open>c = (\<lambda>_. True)\<close>.
\<close>

fun for_loop :: "('s \<Rightarrow> bool) \<Rightarrow> ('a \<Rightarrow> 's \<Rightarrow> error + 's) \<Rightarrow> 'a list \<Rightarrow> 's \<Rightarrow> error + 's" where
  "for_loop c body [] s = Inr s"
| "for_loop c body (i # is) s =
     (if c s then (case body i s of Inl e \<Rightarrow> Inl e | Inr s' \<Rightarrow> for_loop c body is s')
      else Inr s)"

section \<open>particle.c: steering\<close>

definition particle_seek :: "Particle \<Rightarrow> Vector3D \<Rightarrow> Vector3D" where
  "particle_seek p target =
     (let desired = vec3_sub_new target (position p);
          desired1 = vec3_set_mag desired (max_speed p);
          steer = vec3_sub_new desired1 (velocity p)
      in vec3_limit steer (max_force p))"

text \<open>The local accumulators of \<open>particle_flock_optimized\<close>.\<close>

record flock_sums =
  separation :: Vector3D
  alignment :: Vector3D
  cohesion :: Vector3D
  sep_count :: int
  align_count :: int
  coh_count :: int

text \<open>The literal \<open>0.001f\<close> of the distance guard.\<close>

definition min_dist_sq :: real where
  "min_dist_sq = 1 / 1000"

text \<open>One iteration of the neighbour loop of \<open>particle_flock_optimized\<close>.\<close>

definition flock_neighbor ::
  "Particle \<Rightarrow> int \<Rightarrow> Particle list \<Rightarrow> int list \<Rightarrow> real \<Rightarrow> nat \<Rightarrow> flock_sums
     \<Rightarrow> error + flock_sums" where
  "flock_neighbor p particle_idx ps nbrs perception_radius_sq i acc =
     (case array_read nbrs (int i) of
        Inl e \<Rightarrow> Inl e
      | Inr neighbor_idx \<Rightarrow>
          if neighbor_idx = particle_idx then Inr acc
          else (case array_read ps neighbor_idx of
                  Inl e \<Rightarrow> Inl e
                | Inr other \<Rightarrow>
                    (let dist_sq = vec3_dist_sq_inline (position p) (position other)
                     in if dist_sq < perception_radius_sq \<and> dist_sq > min_dist_sq
                        then (let diff = vec3_div (vec3_sub_new (position p) (position other))
                                                  dist_sq
                              in Inr \<lparr>separation = vec3_add (separation acc) diff,
                                      alignment = vec3_add (alignment acc) (velocity other),
                                      cohesion = vec3_add (cohesion acc) (position other),
                                      sep_count = sep_count acc + 1,
                                      align_count = align_count acc + 1,
                                      coh_count = coh_count acc + 1\<rparr>)
                        else Inr acc)))"

definition particle_flock_optimized ::
  "Particle \<Rightarrow> int \<Rightarrow> Particle list \<Rightarrow> int list \<Rightarrow> int \<Rightarrow> Vector3D \<Rightarrow> Vector3D
     \<Rightarrow> real \<Rightarrow> real \<Rightarrow> error + Particle" where
  "particle_flock_optimized p particle_idx ps nbrs neighbor_count ldr1 ldr2
       perception_radius separation_weight =
     (let perception_radius_sq = perception_radius * perception_radius
      in case for_loop (\<lambda>_. True)
                (flock_neighbor p particle_idx ps nbrs perception_radius_sq)
                [0..<nat neighbor_count]
                \<lparr>separation = vec3_create 0 0 0, alignment = vec3_create 0 0 0,
                 cohesion = vec3_create 0 0 0,
                 sep_count = 0, align_count = 0, coh_count = 0\<rparr> of
           Inl e \<Rightarrow> Inl e
         | Inr acc \<Rightarrow>
            (let sep =
                   (if sep_count acc > 0
                    then vec3_mult
                           (vec3_limit
                              (vec3_sub
                                 (vec3_set_mag
                                    (vec3_div (separation acc) (real_of_int (sep_count acc)))
                                    (max_speed p))
                                 (velocity p))
                              (max_force p))
                           separation_weight
                    else separation acc);
                 ali =
                   (if align_count acc > 0
                    then vec3_limit
                           (vec3_sub
                              (vec3_set_mag
                                 (vec3_div (alignment acc) (real_of_int (align_count acc)))
                                 (max_speed p))
                              (velocity p))
                           (max_force p)
                    else alignment acc);
                 coh =
                   (if coh_count acc > 0
                    then vec3_limit
                           (vec3_sub
                              (vec3_set_mag
                                 (vec3_sub
                                    (vec3_div (cohesion acc) (real_of_int (coh_count acc)))
                                    (position p))
                                 (max_speed p))
                              (velocity p))
                           (max_force p)
                    else cohesion acc);
                 dist1_sq = vec3_dist_sq_inline (position p) ldr1;
                 dist2_sq = vec3_dist_sq_inline (position p) ldr2;
                 closest_leader = (if dist1_sq < dist2_sq then ldr1 else ldr2);
                 leader_attraction = vec3_mult (particle_seek p closest_leader) (1 / 2)
             in Inr (p\<lparr>acceleration :=
                         vec3_add (vec3_add (vec3_add (vec3_add (acceleration p) sep) ali) coh)
                                  leader_attraction\<rparr>)))"


subsection \<open>A scenario for the distance guard\<close>




section \<open>spatial_grid.c\<close>

text \<open>\<open>SpatialGrid\<close> of spatial_grid.h; the three pointers are the arrays they point to.\<close>

record SpatialGrid =
  particle_indices :: "int list"
  cell_starts :: "int list"
  cell_counts :: "int list"
  grid_width :: int
  grid_height :: int
  grid_depth :: int
  cell_size :: real
  total_cells :: int
  num_particles :: int

definition MAX_NEIGHBORS :: int where
  "MAX_NEIGHBORS = 10"

text \<open>
  The conversion \<open>(int)f\<close> truncates toward zero. It is undefined when the truncated value
  is not an \<open>int\<close> (32 bits), which the model reports as an error.
\<close>

definition float_to_int :: "real \<Rightarrow> error + int" where
  "float_to_int r =
     (if - 2147483649 < r \<and> r < 2147483648
      then Inr (if 0 \<le> r then \<lfloor>r\<rfloor> else \<lceil>r\<rceil>)
      else Inl FloatToIntUndefined)"

definition get_cell_index :: "SpatialGrid \<Rightarrow> int \<Rightarrow> int \<Rightarrow> int \<Rightarrow> int" where
  "get_cell_index grid gx gy gz =
     (if gx < 0 \<or> gx \<ge> grid_width grid \<or>
         gy < 0 \<or> gy \<ge> grid_height grid \<or>
         gz < 0 \<or> gz \<ge> grid_depth grid
      then - 1
      else gx + gy * grid_width grid + gz * grid_width grid * grid_height grid)"

text \<open>
  \<open>get_grid_coords\<close>: each coordinate is \<open>(int)(pos / cell_size)\<close>. With a cell size of
  zero the quotient is an infinity or NaN, whose conversion is undefined.
\<close>

definition get_grid_coords :: "SpatialGrid \<Rightarrow> Vector3D \<Rightarrow> error + (int \<times> int \<times> int)" where
  "get_grid_coords grid pos =
     (if cell_size grid = 0 then Inl FloatToIntUndefined
      else (case float_to_int (xc pos / cell_size grid) of
              Inl e \<Rightarrow> Inl e
            | Inr x_out \<Rightarrow>
               (case float_to_int (yc pos / cell_size grid) of
                  Inl e \<Rightarrow> Inl e
                | Inr y_out \<Rightarrow>
                   (case float_to_int (zc pos / cell_size grid) of
                      Inl e \<Rightarrow> Inl e
                    | Inr z_out \<Rightarrow> Inr (x_out, y_out, z_out)))))"

text \<open>
  \<open>spatial_grid_create\<close>. \<open>malloc\<close> gives storage with arbitrary content: the content is
  the parameter \<open>junk\<close>. A negative number of elements has no allocation.
\<close>

definition spatial_grid_create ::
  "real \<Rightarrow> real \<Rightarrow> real \<Rightarrow> real \<Rightarrow> int \<Rightarrow> (nat \<Rightarrow> int) \<Rightarrow> error + SpatialGrid" where
  "spatial_grid_create world_width world_height world_depth csize max_particles junk =
     (if csize = 0 then Inl FloatToIntUndefined
      else (case float_to_int (of_int \<lceil>world_width / csize\<rceil>) of
              Inl e \<Rightarrow> Inl e
            | Inr gw \<Rightarrow>
               (case float_to_int (of_int \<lceil>world_height / csize\<rceil>) of
                  Inl e \<Rightarrow> Inl e
                | Inr gh \<Rightarrow>
                   (case float_to_int (of_int \<lceil>world_depth / csize\<rceil>) of
                      Inl e \<Rightarrow> Inl e
                    | Inr gd \<Rightarrow>
                       if max_particles < 0 \<or> gw * gh * gd < 0 then Inl AllocationFailed
                       else Inr \<lparr>particle_indices = map junk [0..<nat max_particles],
                                 cell_starts = map junk [0..<nat (gw * gh * gd)],
                                 cell_counts = map junk [0..<nat (gw * gh * gd)],
                                 grid_width = gw, grid_height = gh, grid_depth = gd,
                                 cell_size = csize,
                                 total_cells = gw * gh * gd,
                                 num_particles = max_particles\<rparr>))))"

text \<open>The head of both particle loops of \<open>spatial_grid_update\<close>: the cell index of
  \<open>particles[i]\<close>, which is -1 outside the grid.\<close>

definition particle_cell :: "SpatialGrid \<Rightarrow> Particle list \<Rightarrow> nat \<Rightarrow> error + int" where
  "particle_cell grid ps i =
     (case array_read ps (int i) of
        Inl e \<Rightarrow> Inl e
      | Inr p \<Rightarrow>
         (case get_grid_coords grid (position p) of
            Inl e \<Rightarrow> Inl e
          | Inr (gx, gy, gz) \<Rightarrow> Inr (get_cell_index grid gx gy gz)))"

text \<open>First loop: \<open>cell_counts[cell_idx]++\<close>.\<close>

definition count_particle ::
  "SpatialGrid \<Rightarrow> Particle list \<Rightarrow> nat \<Rightarrow> int list \<Rightarrow> error + int list" where
  "count_particle grid ps i counts =
     (case particle_cell grid ps i of
        Inl e \<Rightarrow> Inl e
      | Inr cell_idx \<Rightarrow>
         if cell_idx \<ge> 0
         then (case array_read counts cell_idx of
                 Inl e \<Rightarrow> Inl e
               | Inr c \<Rightarrow> array_write counts cell_idx (c + 1))
         else Inr counts)"

text \<open>Second loop: the start of every occupied cell is the running offset.\<close>

definition assign_start ::
  "int list \<Rightarrow> nat \<Rightarrow> int list \<times> int \<Rightarrow> error + (int list \<times> int)" where
  "assign_start counts i st =
     (case st of (starts, offset) \<Rightarrow>
        (case array_read counts (int i) of
           Inl e \<Rightarrow> Inl e
         | Inr c \<Rightarrow>
            if c > 0
            then (case array_write starts (int i) offset of
                    Inl e \<Rightarrow> Inl e
                  | Inr starts' \<Rightarrow> Inr (starts', offset + c))
            else Inr (starts, offset)))"

text \<open>Third loop: the particle goes to the next free slot of the run of its cell.\<close>

definition place_particle ::
  "SpatialGrid \<Rightarrow> Particle list \<Rightarrow> int list \<Rightarrow> nat \<Rightarrow> int list \<times> int list
     \<Rightarrow> error + (int list \<times> int list)" where
  "place_particle grid ps starts i st =
     (case st of (indices, counts) \<Rightarrow>
        (case particle_cell grid ps i of
           Inl e \<Rightarrow> Inl e
         | Inr cell_idx \<Rightarrow>
            if cell_idx \<ge> 0
            then (case array_read starts cell_idx of
                    Inl e \<Rightarrow> Inl e
                  | Inr s \<Rightarrow>
                     (case array_read counts cell_idx of
                        Inl e \<Rightarrow> Inl e
                      | Inr c \<Rightarrow>
                         (case array_write indices (s + c) (int i) of
                            Inl e \<Rightarrow> Inl e
                          | Inr indices' \<Rightarrow>
                             (case array_write counts cell_idx (c + 1) of
                                Inl e \<Rightarrow> Inl e
                              | Inr counts' \<Rightarrow> Inr (indices', counts')))))
            else Inr (indices, counts)))"

definition spatial_grid_update ::
  "SpatialGrid \<Rightarrow> Particle list \<Rightarrow> int \<Rightarrow> error + SpatialGrid" where
  "spatial_grid_update grid ps cnt =
     (case memset_int (cell_counts grid) 0 (total_cells grid) of
        Inl e \<Rightarrow> Inl e
      | Inr counts0 \<Rightarrow>
     (case memset_int (cell_starts grid) (- 1) (total_cells grid) of
        Inl e \<Rightarrow> Inl e
      | Inr starts0 \<Rightarrow>
     (case for_loop (\<lambda>_. True) (count_particle grid ps) [0..<nat cnt] counts0 of
        Inl e \<Rightarrow> Inl e
      | Inr counts1 \<Rightarrow>
     (case for_loop (\<lambda>_. True) (assign_start counts1) [0..<nat (total_cells grid)]
             (starts0, 0) of
        Inl e \<Rightarrow> Inl e
      | Inr (starts1, offset) \<Rightarrow>
     (case memset_int counts1 0 (total_cells grid) of
        Inl e \<Rightarrow> Inl e
      | Inr counts2 \<Rightarrow>
     (case for_loop (\<lambda>_. True) (place_particle grid ps starts1) [0..<nat cnt]
             (particle_indices grid, counts2) of
        Inl e \<Rightarrow> Inl e
      | Inr (indices, counts3) \<Rightarrow>
          Inr (grid\<lparr>particle_indices := indices, cell_starts := starts1,
                    cell_counts := counts3\<rparr>)))))))"

text \<open>
  \<open>spatial_grid_query_neighbors\<close>. The state of its loops is the static
  \<open>neighbor_buffer\<close> (which keeps its content between calls, so it is a parameter) and
  \<open>neighbor_count\<close>; every loop has the extra condition \<open>neighbor_count < MAX_NEIGHBORS\<close>.
\<close>

definition room_left :: "int list \<times> int \<Rightarrow> bool" where
  "room_left st = (snd st < MAX_NEIGHBORS)"

text \<open>The innermost loop body: the candidate \<open>particle_indices[start + i]\<close>.\<close>

definition test_candidate ::
  "SpatialGrid \<Rightarrow> Particle list \<Rightarrow> Vector3D \<Rightarrow> real \<Rightarrow> int \<Rightarrow> nat \<Rightarrow> int list \<times> int
     \<Rightarrow> error + (int list \<times> int)" where
  "test_candidate grid ps point radius_sq start i st =
     (case st of (buf, neighbor_count) \<Rightarrow>
        (case array_read (particle_indices grid) (start + int i) of
           Inl e \<Rightarrow> Inl e
         | Inr particle_idx \<Rightarrow>
            (case array_read ps particle_idx of
               Inl e \<Rightarrow> Inl e
             | Inr other \<Rightarrow>
                (let dist_sq = vec3_dist_sq_inline point (position other)
                 in if dist_sq < radius_sq
                    then (case array_write buf neighbor_count particle_idx of
                            Inl e \<Rightarrow> Inl e
                          | Inr buf' \<Rightarrow> Inr (buf', neighbor_count + 1))
                    else Inr (buf, neighbor_count)))))"

text \<open>The body of the \<open>dx\<close> loop for the cell \<open>(gx, gy, gz)\<close>.\<close>

definition scan_cell ::
  "SpatialGrid \<Rightarrow> Particle list \<Rightarrow> Vector3D \<Rightarrow> real \<Rightarrow> int \<Rightarrow> int \<Rightarrow> int \<Rightarrow> int list \<times> int
     \<Rightarrow> error + (int list \<times> int)" where
  "scan_cell grid ps point radius_sq gx gy gz st =
     (let cell_idx = get_cell_index grid gx gy gz
      in if cell_idx < 0 then Inr st
         else (case array_read (cell_starts grid) cell_idx of
                 Inl e \<Rightarrow> Inl e
               | Inr start \<Rightarrow>
                  (case array_read (cell_counts grid) cell_idx of
                     Inl e \<Rightarrow> Inl e
                   | Inr cnt \<Rightarrow>
                      if start < 0 then Inr st
                      else for_loop room_left
                             (test_candidate grid ps point radius_sq start)
                             [0..<nat cnt] st)))"

definition spatial_grid_query_neighbors ::
  "SpatialGrid \<Rightarrow> Particle list \<Rightarrow> Vector3D \<Rightarrow> real \<Rightarrow> int list
     \<Rightarrow> error + (int list \<times> int)" where
  "spatial_grid_query_neighbors grid ps point radius neighbor_buffer =
     (case get_grid_coords grid point of
        Inl e \<Rightarrow> Inl e
      | Inr (cx, cy, cz) \<Rightarrow>
         (let cell_radius = 1;
              radius_sq = radius * radius
          in for_loop room_left
               (\<lambda>dz. for_loop room_left
                  (\<lambda>dy. for_loop room_left
                     (\<lambda>dx. scan_cell grid ps point radius_sq (cx + dx) (cy + dy) (cz + dz))
                     [- cell_radius..cell_radius])
                  [- cell_radius..cell_radius])
               [- cell_radius..cell_radius]
               (neighbor_buffer, 0)))"

subsection \<open>A scenario for the capacity: twelve particles at one point\<close>

definition still_at :: "real \<Rightarrow> real \<Rightarrow> real \<Rightarrow> Particle" where
  "still_at a b c = \<lparr>position = \<lparr>xc = a, yc = b, zc = c\<rparr>,
                     velocity = \<lparr>xc = 0, yc = 0, zc = 0\<rparr>,
                     acceleration = \<lparr>xc = 0, yc = 0, zc = 0\<rparr>,
                     max_speed = 4, max_force = 1 / 10\<rparr>"

definition cluster_ps :: "Particle list" where
  "cluster_ps = replicate 12 (still_at 50 50 50)"

definition cluster_grid :: SpatialGrid where
  "cluster_grid = \<lparr>particle_indices = [0, 1, 2, 3, 4, 5, 6, 7, 8, 9, 10, 11],
                    cell_starts = [0], cell_counts = [12],
                    grid_width = 1, grid_height = 1, grid_depth = 1,
                    cell_size = 100, total_cells = 1, num_particles = 12\<rparr>"

subsection \<open>Invariant of the query loops\<close>

text \<open>What the query loops keep true of their state: the buffer keeps its size and the
  count stays between 0 and the capacity.\<close>

definition buffer_ok :: "nat \<Rightarrow> int list \<times> int \<Rightarrow> bool" where
  "buffer_ok n st = (length (fst st) = n \<and> 0 \<le> snd st \<and> snd st \<le> MAX_NEIGHBORS)"

text \<open>A result is safe when it is not a write outside the buffer and, when it is a state,
  the state is as above.\<close>

definition safe_result :: "nat \<Rightarrow> error + (int list \<times> int) \<Rightarrow> bool" where
  "safe_result n r =
     (case r of Inl e \<Rightarrow> e \<noteq> WriteOutOfBounds | Inr st \<Rightarrow> buffer_ok n st)"

section \<open>Specification of the grid\<close>

text \<open>The cell a particle belongs to: the index \<open>get_cell_index\<close> gives for the
  coordinates \<open>get_grid_coords\<close> gives, -1 when the particle is outside the grid.\<close>

definition cell_of :: "SpatialGrid \<Rightarrow> Particle \<Rightarrow> int" where
  "cell_of g p =
     (case get_grid_coords g (position p) of
        Inl e \<Rightarrow> - 1
      | Inr (gx, gy, gz) \<Rightarrow> get_cell_index g gx gy gz)"

text \<open>A position whose three quotients by the cell size have an \<open>int\<close> value.\<close>

definition convertible :: "SpatialGrid \<Rightarrow> Vector3D \<Rightarrow> bool" where
  "convertible g pos = (case get_grid_coords g pos of Inl e \<Rightarrow> False | Inr c \<Rightarrow> True)"

text \<open>The contiguous run \<open>indices[cell_start .. cell_start + cell_count)\<close> of cell \<open>c\<close>.\<close>

definition cell_run :: "SpatialGrid \<Rightarrow> nat \<Rightarrow> int list" where
  "cell_run g c =
     take (nat (cell_counts g ! c)) (drop (nat (cell_starts g ! c)) (particle_indices g))"

text \<open>A grid as \<open>spatial_grid_create\<close> allocates it: the two cell arrays have
  \<open>total_cells\<close> elements, the index array has \<open>num_particles\<close>.\<close>

definition grid_wf :: "SpatialGrid \<Rightarrow> bool" where
  "grid_wf g =
     (0 \<le> total_cells g
      \<and> total_cells g = grid_width g * grid_height g * grid_depth g
      \<and> length (cell_starts g) = nat (total_cells g)
      \<and> length (cell_counts g) = nat (total_cells g)
      \<and> length (particle_indices g) = nat (num_particles g))"

text \<open>How many of the particles \<open>is\<close> belong to cell \<open>c\<close>.\<close>

definition tally :: "(nat \<Rightarrow> int) \<Rightarrow> nat list \<Rightarrow> nat \<Rightarrow> nat" where
  "tally k is c = length (filter (\<lambda>i. k i = int c) is)"

text \<open>
  The invariant of the data model: the grid \<open>g\<close> holds the particles \<open>ps[0..n)\<close>. For every
  cell, the count is the number of particles that map to the cell, the start is negative
  exactly when the cell is empty, the run lies inside the index array, and the run lists
  the particles of the cell (in the order of their indices).
\<close>

definition grid_holds :: "SpatialGrid \<Rightarrow> Particle list \<Rightarrow> nat \<Rightarrow> bool" where
  "grid_holds g ps n =
     (grid_wf g
      \<and> (\<forall>c<nat (total_cells g).
            cell_counts g ! c = int (length (filter (\<lambda>i. cell_of g (ps ! i) = int c) [0..<n]))
            \<and> (cell_starts g ! c < 0) = (cell_counts g ! c = 0)
            \<and> nat (cell_starts g ! c) + nat (cell_counts g ! c) \<le> length (particle_indices g)
            \<and> cell_run g c = map int (filter (\<lambda>i. cell_of g (ps ! i) = int c) [0..<n])))"

text \<open>Two grids of the same shape: the fields that \<open>spatial_grid_update\<close> does not touch.\<close>

definition same_shape :: "SpatialGrid \<Rightarrow> SpatialGrid \<Rightarrow> bool" where
  "same_shape g' g =
     (grid_width g' = grid_width g \<and> grid_height g' = grid_height g
      \<and> grid_depth g' = grid_depth g \<and> cell_size g' = cell_size g
      \<and> total_cells g' = total_cells g \<and> num_particles g' = num_particles g)"

subsection \<open>A scenario for the grid: the four agents of the specification and one outside\<close>


definition scenario_grid :: SpatialGrid where
  "scenario_grid = \<lparr>particle_indices = [7, 7, 7, 7, 7],
                     cell_starts = [7, 7, 7, 7, 7, 7, 7, 7],
                     cell_counts = [7, 7, 7, 7, 7, 7, 7, 7],
                     grid_width = 2, grid_height = 2, grid_depth = 2,
                     cell_size = 50, total_cells = 8, num_particles = 5\<rparr>"


section \<open>Specification of the query\<close>

text \<open>The entries of the buffer that a query result hands to its caller.\<close>

definition accepted :: "int list \<times> int \<Rightarrow> int list" where
  "accepted st = take (nat (snd st)) (fst st)"


text \<open>The particles of the cell \<open>(gx, gy, gz)\<close>; none when the cell is outside the grid.\<close>

definition cell_candidates :: "SpatialGrid \<Rightarrow> int \<Rightarrow> int \<Rightarrow> int \<Rightarrow> int list" where
  "cell_candidates g gx gy gz =
     (if get_cell_index g gx gy gz < 0 then []
      else cell_run g (nat (get_cell_index g gx gy gz)))"

text \<open>The candidates of a query from cell \<open>(cx, cy, cz)\<close>, in the order of the scan: the
  3 x 3 x 3 block of cells, \<open>dz\<close> outermost and \<open>dx\<close> innermost.\<close>

definition candidates :: "SpatialGrid \<Rightarrow> int \<Rightarrow> int \<Rightarrow> int \<Rightarrow> int list" where
  "candidates g cx cy cz =
     concat (map (\<lambda>dz.
       concat (map (\<lambda>dy.
         concat (map (\<lambda>dx. cell_candidates g (cx + dx) (cy + dy) (cz + dz))
                     [- 1, 0, 1]))
                   [- 1, 0, 1]))
                 [- 1, 0, 1])"

section \<open>main.c: the per-frame update\<close>

text \<open>\<open>NeighborCache\<close> of main.c; \<open>neighbors\<close> is an array of \<open>MAX_NEIGHBORS\<close> indices.\<close>

record NeighborCache =
  neighbors :: "int list"
  count :: int
  frame_cached :: int

text \<open>
  The configuration macros of main.c that the update reads. They are parameters of the
  model, so that the theorems hold for every setting; \<open>main_config\<close> has the values of
  the source.
\<close>

record Config =
  WIDTH :: real
  HEIGHT :: real
  DEPTH :: real
  NUM_PARTICLES :: int
  PERCEPTION_RADIUS :: real
  ORBIT_RADIUS :: real
  LEADER_SPEED :: real
  LEADER_INTERPOLATION :: real
  SEPARATION_OSCILLATION_SPEED :: real
  UPDATE_GRID_EVERY_N_FRAMES :: int
  CACHE_NEIGHBORS_FRAMES :: int
  MAX_FRAME_TIME_MS :: real

definition main_config :: Config where
  "main_config =
     \<lparr>WIDTH = 800, HEIGHT = 600, DEPTH = 600, NUM_PARTICLES = 500,
      PERCEPTION_RADIUS = 50, ORBIT_RADIUS = 250, LEADER_SPEED = 15 / 1000,
      LEADER_INTERPOLATION = 5 / 100, SEPARATION_OSCILLATION_SPEED = 1 / 100,
      UPDATE_GRID_EVERY_N_FRAMES = 1, CACHE_NEIGHBORS_FRAMES = 2,
      MAX_FRAME_TIME_MS = 10\<rparr>"

text \<open>
  The global variables of main.c that the update reads or writes (the grid
  \<open>spatial_grid\<close> is the field \<open>sgrid\<close>), with the static \<open>neighbor_buffer\<close> of the
  query. The profiling sums are left out: nothing reads them but the report that is
  printed.
\<close>

record Sim =
  particles :: "Particle list"
  sgrid :: SpatialGrid
  neighbor_cache :: "NeighborCache list"
  neighbor_buffer :: "int list"
  current_frame :: int
  leader1 :: Vector3D
  leader2 :: Vector3D
  target_leader1 :: Vector3D
  target_leader2 :: Vector3D
  leader_angle :: real
  separation_time :: real
  follow_cursor :: bool
  mouse_pos :: Vector3D

text \<open>
  The refresh of the cache of agent \<open>i\<close>: the query from its position, then the count, the
  copy of (at most \<open>MAX_NEIGHBORS\<close>) indices, and the frame stamp.
\<close>

definition refresh_cache :: "Config \<Rightarrow> nat \<Rightarrow> Sim \<Rightarrow> error + Sim" where
  "refresh_cache cfg i s =
     (case array_read (particles s) (int i) of
        Inl e \<Rightarrow> Inl e
      | Inr p \<Rightarrow>
     (case spatial_grid_query_neighbors (sgrid s) (particles s) (position p)
             (PERCEPTION_RADIUS cfg) (neighbor_buffer s) of
        Inl e \<Rightarrow> Inl e
      | Inr (buf, neighbor_count) \<Rightarrow>
     (case array_read (neighbor_cache s) (int i) of
        Inl e \<Rightarrow> Inl e
      | Inr c \<Rightarrow>
     (case for_loop (\<lambda>_. True)
             (\<lambda>j nb. case array_read buf (int j) of
                        Inl e \<Rightarrow> Inl e
                      | Inr v \<Rightarrow> array_write nb (int j) v)
             [0..<nat (min neighbor_count MAX_NEIGHBORS)] (neighbors c) of
        Inl e \<Rightarrow> Inl e
      | Inr nb \<Rightarrow>
     (case array_write (neighbor_cache s) (int i)
             \<lparr>neighbors = nb, count = neighbor_count, frame_cached = current_frame s\<rparr> of
        Inl e \<Rightarrow> Inl e
      | Inr cache' \<Rightarrow> Inr (s\<lparr>neighbor_cache := cache', neighbor_buffer := buf\<rparr>))))))"

text \<open>
  The body of the agent loop after the budget test. The operands of \<open>%\<close> are not negative
  and the divisor is positive in the program, where \<open>%\<close> is \<open>mod\<close>.
\<close>

definition agent_step :: "Config \<Rightarrow> real \<Rightarrow> nat \<Rightarrow> Sim \<Rightarrow> error + Sim" where
  "agent_step cfg separation_weight i s =
     (case array_read (neighbor_cache s) (int i) of
        Inl e \<Rightarrow> Inl e
      | Inr c \<Rightarrow>
     (let stagger_group = int i mod CACHE_NEIGHBORS_FRAMES cfg;
          should_update = (current_frame s mod CACHE_NEIGHBORS_FRAMES cfg = stagger_group);
          needs_init = (current_frame s < CACHE_NEIGHBORS_FRAMES cfg \<and> count c = 0)
      in case (if should_update \<or> needs_init then refresh_cache cfg i s else Inr s) of
           Inl e \<Rightarrow> Inl e
         | Inr s1 \<Rightarrow>
        (case array_read (neighbor_cache s1) (int i) of
           Inl e \<Rightarrow> Inl e
         | Inr c1 \<Rightarrow>
        (case array_read (particles s1) (int i) of
           Inl e \<Rightarrow> Inl e
         | Inr p \<Rightarrow>
        (case particle_flock_optimized p (int i) (particles s1) (neighbors c1) (count c1)
                (leader1 s1) (leader2 s1) (PERCEPTION_RADIUS cfg) separation_weight of
           Inl e \<Rightarrow> Inl e
         | Inr p1 \<Rightarrow>
        (case array_write (particles s1) (int i)
                (particle_wrap (particle_update p1) (WIDTH cfg) (HEIGHT cfg) (DEPTH cfg)) of
           Inl e \<Rightarrow> Inl e
         | Inr ps' \<Rightarrow> Inr (s1\<lparr>particles := ps'\<rparr>)))))))"

text \<open>
  The agent loop. \<open>elapsed i\<close> is the wall-clock time since the start of the frame that
  iteration \<open>i\<close> reads, an input of the model. The loop leaves at the first iteration that
  finds the time above the budget with more than half of the agents updated.
\<close>

fun agent_loop ::
  "Config \<Rightarrow> (nat \<Rightarrow> real) \<Rightarrow> real \<Rightarrow> nat list \<Rightarrow> Sim \<times> int \<Rightarrow> error + (Sim \<times> int)" where
  "agent_loop cfg elapsed sw [] st = Inr st"
| "agent_loop cfg elapsed sw (i # is) st =
     (case st of (s, particles_updated) \<Rightarrow>
        if elapsed i > MAX_FRAME_TIME_MS cfg \<and> particles_updated > NUM_PARTICLES cfg div 2
        then Inr (s, particles_updated)
        else (case agent_step cfg sw i s of
                Inl e \<Rightarrow> Inl e
              | Inr s' \<Rightarrow> agent_loop cfg elapsed sw is (s', particles_updated + 1)))"

text \<open>The first part of \<open>update_simulation\<close>: the phase of the separation weight advances
  and the two leaders move toward their targets (the cursor, or two points on an orbit).\<close>

definition update_leaders :: "Config \<Rightarrow> Sim \<Rightarrow> Sim" where
  "update_leaders cfg s =
     (let sep_time = separation_time s + SEPARATION_OSCILLATION_SPEED cfg;
          angle = (if follow_cursor s then leader_angle s
                   else leader_angle s + LEADER_SPEED cfg);
          t1 = (if follow_cursor s then vec3_copy (mouse_pos s)
                else vec3_create
                       (WIDTH cfg / 2 + cos angle * ORBIT_RADIUS cfg)
                       (HEIGHT cfg / 2 + sin angle * ORBIT_RADIUS cfg * (7 / 10))
                       (DEPTH cfg / 2 + sin (angle * (3 / 2)) * 100));
          t2 = (if follow_cursor s then vec3_copy (mouse_pos s)
                else vec3_create
                       (WIDTH cfg / 2 + cos (angle + pi) * ORBIT_RADIUS cfg)
                       (HEIGHT cfg / 2 + sin (angle + pi) * ORBIT_RADIUS cfg * (7 / 10))
                       (DEPTH cfg / 2 + cos (angle * (3 / 2)) * 100));
          l1 = \<lparr>xc = xc (leader1 s) + (xc t1 - xc (leader1 s)) * LEADER_INTERPOLATION cfg,
                yc = yc (leader1 s) + (yc t1 - yc (leader1 s)) * LEADER_INTERPOLATION cfg,
                zc = zc (leader1 s) + (zc t1 - zc (leader1 s)) * LEADER_INTERPOLATION cfg\<rparr>;
          l2 = \<lparr>xc = xc (leader2 s) + (xc t2 - xc (leader2 s)) * LEADER_INTERPOLATION cfg,
                yc = yc (leader2 s) + (yc t2 - yc (leader2 s)) * LEADER_INTERPOLATION cfg,
                zc = zc (leader2 s) + (zc t2 - zc (leader2 s)) * LEADER_INTERPOLATION cfg\<rparr>
      in s\<lparr>separation_time := sep_time, leader_angle := angle,
            target_leader1 := t1, target_leader2 := t2, leader1 := l1, leader2 := l2\<rparr>)"

text \<open>\<open>update_simulation\<close>: the leaders and the separation weight, the grid rebuild on its
  cadence, the agent loop, and the frame counter.\<close>

definition update_simulation :: "Config \<Rightarrow> (nat \<Rightarrow> real) \<Rightarrow> Sim \<Rightarrow> error + Sim" where
  "update_simulation cfg elapsed s =
     (let s1 = update_leaders cfg s;
          separation_weight = 11 / 10 + sin (separation_time s1) * (3 / 10)
      in case (if current_frame s1 mod UPDATE_GRID_EVERY_N_FRAMES cfg = 0
               then (case spatial_grid_update (sgrid s1) (particles s1)
                            (NUM_PARTICLES cfg) of
                       Inl e \<Rightarrow> Inl e
                     | Inr g \<Rightarrow> Inr (s1\<lparr>sgrid := g\<rparr>))
               else Inr s1) of
           Inl e \<Rightarrow> Inl e
         | Inr s2 \<Rightarrow>
            (case agent_loop cfg elapsed separation_weight [0..<nat (NUM_PARTICLES cfg)]
                    (s2, 0) of
               Inl e \<Rightarrow> Inl e
             | Inr (s3, particles_updated) \<Rightarrow>
                 Inr (s3\<lparr>current_frame := current_frame s3 + 1\<rparr>)))"

subsection \<open>A scenario for the frame loop: three agents at rest on the leaders\<close>

text \<open>A world of 100 x 100 x 100 in one cell, three agents at rest at the point where the
  cursor and both leaders are, and a cache period of 2; the frame number, the phase of
  the separation weight and the caches are parameters. Every cache holds the three
  agents.\<close>

definition tiny_config :: Config where
  "tiny_config =
     \<lparr>WIDTH = 100, HEIGHT = 100, DEPTH = 100, NUM_PARTICLES = 3,
      PERCEPTION_RADIUS = 50, ORBIT_RADIUS = 250, LEADER_SPEED = 15 / 1000,
      LEADER_INTERPOLATION = 5 / 100, SEPARATION_OSCILLATION_SPEED = 1 / 100,
      UPDATE_GRID_EVERY_N_FRAMES = 1, CACHE_NEIGHBORS_FRAMES = 2,
      MAX_FRAME_TIME_MS = 10\<rparr>"

definition tiny_cache :: "int \<Rightarrow> NeighborCache" where
  "tiny_cache stamp =
     \<lparr>neighbors = [0, 1, 2, 0, 0, 0, 0, 0, 0, 0], count = 3, frame_cached = stamp\<rparr>"

definition tiny_sim :: "int \<Rightarrow> real \<Rightarrow> NeighborCache list \<Rightarrow> Sim" where
  "tiny_sim frame sep_time cache =
     \<lparr>particles = [still_at 50 50 50, still_at 50 50 50, still_at 50 50 50],
      sgrid = \<lparr>particle_indices = [0, 1, 2], cell_starts = [0], cell_counts = [3],
                      grid_width = 1, grid_height = 1, grid_depth = 1,
                      cell_size = 100, total_cells = 1, num_particles = 3\<rparr>,
      neighbor_cache = cache,
      neighbor_buffer = [0, 1, 2, 0, 0, 0, 0, 0, 0, 0],
      current_frame = frame,
      leader1 = \<lparr>xc = 50, yc = 50, zc = 50\<rparr>, leader2 = \<lparr>xc = 50, yc = 50, zc = 50\<rparr>,
      target_leader1 = \<lparr>xc = 50, yc = 50, zc = 50\<rparr>,
      target_leader2 = \<lparr>xc = 50, yc = 50, zc = 50\<rparr>,
      leader_angle = 0, separation_time = sep_time,
      follow_cursor = True, mouse_pos = \<lparr>xc = 50, yc = 50, zc = 50\<rparr>\<rparr>"

text \<open>A clock that never shows a time above the budget: with it the agent loop has no
  early exit.\<close>

definition within_budget :: "Config \<Rightarrow> nat \<Rightarrow> real" where
  "within_budget cfg i = MAX_FRAME_TIME_MS cfg"

section \<open>binary32 arithmetic\<close>

text \<open>
  The C type \<open>float\<close> is IEEE 754 binary32: 24 significant bits, exponents from -126 to
  127, subnormal numbers below \<open>2^-126\<close>, and every operation rounds its exact result to
  the nearest value, ties to the even one. A value is a real number, an infinity or NaN.
  The sections above compute in exact real numbers; the definitions below round after
  every operation and are used where a statement depends on the value of the arithmetic:
  the speed limit and the cell coordinates.
\<close>

datatype float32 = Finite real | PlusInf | MinusInf | NaN

text \<open>The binade of a number: the integer part of the binary logarithm of its absolute
  value, read off the bit length of \<open>\<lfloor>\<bar>a\<bar> * 2^149\<rfloor>\<close>, and at least -126.\<close>

definition exponent32 :: "real \<Rightarrow> int" where
  "exponent32 a = max (bitlen \<lfloor>\<bar>a\<bar> * 2 ^ 149\<rfloor> - 150) (- 126)"

text \<open>The unit in the last place of the binade.\<close>

definition ulp32 :: "real \<Rightarrow> real" where
  "ulp32 a = 2 powi (exponent32 a - 23)"

text \<open>The nearest integer, the even one of two that are equally near.\<close>

definition round_even :: "real \<Rightarrow> int" where
  "round_even q =
     (let f = \<lfloor>q\<rfloor>
      in if q - of_int f < 1 / 2 then f
         else if q - of_int f > 1 / 2 then f + 1
         else if even f then f else f + 1)"

text \<open>The nearest multiple of the unit in the last place.\<close>

definition fl32 :: "real \<Rightarrow> real" where
  "fl32 a = of_int (round_even (a / ulp32 a)) * ulp32 a"

text \<open>The result of an operation whose exact value is \<open>a\<close>: a result that rounds to
  \<open>2^128\<close> or beyond is an infinity.\<close>

definition round32 :: "real \<Rightarrow> float32" where
  "round32 a =
     (let r = fl32 a
      in if 2 ^ 128 \<le> r then PlusInf else if r \<le> - (2 ^ 128) then MinusInf else Finite r)"

text \<open>A real number that is a binary32 value.\<close>

definition is_float32 :: "real \<Rightarrow> bool" where
  "is_float32 a = (fl32 a = a \<and> \<bar>a\<bar> < 2 ^ 128)"

text \<open>
  The operations \<open>+\<close>, \<open>-\<close>, \<open>*\<close>, \<open>/\<close>, \<open>sqrtf\<close> and \<open><\<close> of binary32, with the results that
  IEEE 754 gives for infinities and NaN; \<open>sqrtf\<close> is correctly rounded, as IEEE 754
  requires of the square root. Zero has no sign in the model; a non-zero number divided
  by zero is the infinity with the sign of the dividend, as for a positive zero.
\<close>

definition inf_of :: "bool \<Rightarrow> float32" where
  "inf_of negative = (if negative then MinusInf else PlusInf)"

fun is_negative :: "float32 \<Rightarrow> bool" where
  "is_negative (Finite a) = (a < 0)"
| "is_negative MinusInf = True"
| "is_negative PlusInf = False"
| "is_negative NaN = False"

fun f32_add :: "float32 \<Rightarrow> float32 \<Rightarrow> float32" where
  "f32_add (Finite a) (Finite b) = round32 (a + b)"
| "f32_add (Finite a) PlusInf = PlusInf"
| "f32_add (Finite a) MinusInf = MinusInf"
| "f32_add PlusInf (Finite b) = PlusInf"
| "f32_add PlusInf PlusInf = PlusInf"
| "f32_add PlusInf MinusInf = NaN"
| "f32_add MinusInf (Finite b) = MinusInf"
| "f32_add MinusInf MinusInf = MinusInf"
| "f32_add MinusInf PlusInf = NaN"
| "f32_add NaN y = NaN"
| "f32_add x NaN = NaN"

fun f32_neg :: "float32 \<Rightarrow> float32" where
  "f32_neg (Finite a) = Finite (- a)"
| "f32_neg PlusInf = MinusInf"
| "f32_neg MinusInf = PlusInf"
| "f32_neg NaN = NaN"

definition f32_sub :: "float32 \<Rightarrow> float32 \<Rightarrow> float32" where
  "f32_sub x y = f32_add x (f32_neg y)"

fun f32_mul :: "float32 \<Rightarrow> float32 \<Rightarrow> float32" where
  "f32_mul (Finite a) (Finite b) = round32 (a * b)"
| "f32_mul NaN y = NaN"
| "f32_mul x NaN = NaN"
| "f32_mul x y =
     (if x = Finite 0 \<or> y = Finite 0 then NaN else inf_of (is_negative x \<noteq> is_negative y))"

fun f32_div :: "float32 \<Rightarrow> float32 \<Rightarrow> float32" where
  "f32_div (Finite a) (Finite b) =
     (if b = 0 then (if a = 0 then NaN else inf_of (a < 0)) else round32 (a / b))"
| "f32_div NaN y = NaN"
| "f32_div x NaN = NaN"
| "f32_div (Finite a) y = Finite 0"
| "f32_div x (Finite b) = inf_of (is_negative x \<noteq> (b < 0))"
| "f32_div x y = NaN"

fun f32_sqrt :: "float32 \<Rightarrow> float32" where
  "f32_sqrt (Finite a) = (if a < 0 then NaN else round32 (sqrt a))"
| "f32_sqrt PlusInf = PlusInf"
| "f32_sqrt MinusInf = NaN"
| "f32_sqrt NaN = NaN"

fun f32_less :: "float32 \<Rightarrow> float32 \<Rightarrow> bool" where
  "f32_less (Finite a) (Finite b) = (a < b)"
| "f32_less NaN y = False"
| "f32_less x NaN = False"
| "f32_less MinusInf y = (y \<noteq> MinusInf)"
| "f32_less x PlusInf = (x \<noteq> PlusInf)"
| "f32_less x y = False"

section \<open>vector3d.c and particle.c in binary32\<close>

text \<open>\<open>Vector3D\<close> and \<open>Particle\<close> with binary32 fields, and the functions of the
  integration step with every operation rounded.\<close>

record Vector3D_f32 =
  xf :: float32
  yf :: float32
  zf :: float32

record Particle_f32 =
  position_f32 :: Vector3D_f32
  velocity_f32 :: Vector3D_f32
  acceleration_f32 :: Vector3D_f32
  max_speed_f32 :: float32
  max_force_f32 :: float32

definition vec3_add_f32 :: "Vector3D_f32 \<Rightarrow> Vector3D_f32 \<Rightarrow> Vector3D_f32" where
  "vec3_add_f32 v1 v2 =
     \<lparr>xf = f32_add (xf v1) (xf v2), yf = f32_add (yf v1) (yf v2), zf = f32_add (zf v1) (zf v2)\<rparr>"

definition vec3_mult_f32 :: "Vector3D_f32 \<Rightarrow> float32 \<Rightarrow> Vector3D_f32" where
  "vec3_mult_f32 v n = \<lparr>xf = f32_mul (xf v) n, yf = f32_mul (yf v) n, zf = f32_mul (zf v) n\<rparr>"

text \<open>\<open>n != 0.0f\<close> holds for every value but zero, NaN included.\<close>

definition vec3_div_f32 :: "Vector3D_f32 \<Rightarrow> float32 \<Rightarrow> Vector3D_f32" where
  "vec3_div_f32 v n =
     (if n \<noteq> Finite 0
      then \<lparr>xf = f32_div (xf v) n, yf = f32_div (yf v) n, zf = f32_div (zf v) n\<rparr>
      else v)"

definition vec3_mag_f32 :: "Vector3D_f32 \<Rightarrow> float32" where
  "vec3_mag_f32 v =
     f32_sqrt (f32_add (f32_add (f32_mul (xf v) (xf v)) (f32_mul (yf v) (yf v)))
                       (f32_mul (zf v) (zf v)))"

definition vec3_normalize_f32 :: "Vector3D_f32 \<Rightarrow> Vector3D_f32" where
  "vec3_normalize_f32 v =
     (let m = vec3_mag_f32 v in if f32_less (Finite 0) m then vec3_div_f32 v m else v)"

definition vec3_limit_f32 :: "Vector3D_f32 \<Rightarrow> float32 \<Rightarrow> Vector3D_f32" where
  "vec3_limit_f32 v mx =
     (let m = vec3_mag_f32 v
      in if f32_less mx m then vec3_mult_f32 (vec3_normalize_f32 v) mx else v)"

definition particle_update_f32 :: "Particle_f32 \<Rightarrow> Particle_f32" where
  "particle_update_f32 p =
     (let v1 = vec3_add_f32 (velocity_f32 p) (acceleration_f32 p);
          v2 = vec3_limit_f32 v1 (max_speed_f32 p);
          pos = vec3_add_f32 (position_f32 p) v2;
          acc = vec3_mult_f32 (acceleration_f32 p) (Finite 0)
      in p\<lparr>position_f32 := pos, velocity_f32 := v2, acceleration_f32 := acc\<rparr>)"

text \<open>The exact length of a vector with finite components.\<close>

definition exact_length :: "Vector3D_f32 \<Rightarrow> real option" where
  "exact_length v =
     (case (xf v, yf v, zf v) of
        (Finite a, Finite b, Finite c) \<Rightarrow> Some (sqrt (a * a + b * b + c * c))
      | _ \<Rightarrow> None)"

subsection \<open>Scenarios for the speed limit\<close>

text \<open>A particle whose velocity and acceleration add up to (-3, -8, -7).\<close>

definition slanted :: Particle_f32 where
  "slanted = \<lparr>position_f32 = \<lparr>xf = Finite 10, yf = Finite 20, zf = Finite 30\<rparr>,
              velocity_f32 = \<lparr>xf = Finite 0, yf = Finite 1, zf = Finite (- 4)\<rparr>,
              acceleration_f32 = \<lparr>xf = Finite (- 3), yf = Finite (- 9), zf = Finite (- 3)\<rparr>,
              max_speed_f32 = Finite 4, max_force_f32 = round32 (1 / 10)\<rparr>"

text \<open>A particle under a force of millions of units.\<close>

definition pushed :: Particle_f32 where
  "pushed = \<lparr>position_f32 = \<lparr>xf = Finite 10, yf = Finite 20, zf = Finite 30\<rparr>,
             velocity_f32 = \<lparr>xf = Finite 1, yf = Finite 2, zf = Finite 2\<rparr>,
             acceleration_f32 = \<lparr>xf = Finite 3000000, yf = Finite (- 4000000),
                                 zf = Finite 12000000\<rparr>,
             max_speed_f32 = Finite 4, max_force_f32 = round32 (1 / 10)\<rparr>"

text \<open>A particle under a force whose square is no binary32 number.\<close>

definition overdriven :: Particle_f32 where
  "overdriven = \<lparr>position_f32 = \<lparr>xf = Finite 10, yf = Finite 20, zf = Finite 30\<rparr>,
                 velocity_f32 = \<lparr>xf = Finite 1, yf = Finite 2, zf = Finite 2\<rparr>,
                 acceleration_f32 = \<lparr>xf = Finite (2 ^ 68), yf = Finite 0, zf = Finite 0\<rparr>,
                 max_speed_f32 = Finite 4, max_force_f32 = round32 (1 / 10)\<rparr>"

section \<open>spatial_grid.c in binary32\<close>

text \<open>
  The grid with its cell size as a binary32 value, and the functions that read positions:
  the same statements as above with every float operation rounded. The three loops of the
  update share \<open>assign_start\<close>, which reads no float.
\<close>

record SpatialGrid_f32 =
  particle_indices_f32 :: "int list"
  cell_starts_f32 :: "int list"
  cell_counts_f32 :: "int list"
  grid_width_f32 :: int
  grid_height_f32 :: int
  grid_depth_f32 :: int
  cell_size_f32 :: float32
  total_cells_f32 :: int
  num_particles_f32 :: int

text \<open>The conversion \<open>(int)f\<close> of a binary32 value: the truncation toward zero of a
  finite value, undefined for the infinities and NaN.\<close>

definition float_to_int_f32 :: "float32 \<Rightarrow> error + int" where
  "float_to_int_f32 f =
     (case f of Finite r \<Rightarrow> float_to_int r | _ \<Rightarrow> Inl FloatToIntUndefined)"

definition get_cell_index_f32 :: "SpatialGrid_f32 \<Rightarrow> int \<Rightarrow> int \<Rightarrow> int \<Rightarrow> int" where
  "get_cell_index_f32 grid gx gy gz =
     (if gx < 0 \<or> gx \<ge> grid_width_f32 grid \<or>
         gy < 0 \<or> gy \<ge> grid_height_f32 grid \<or>
         gz < 0 \<or> gz \<ge> grid_depth_f32 grid
      then - 1
      else gx + gy * grid_width_f32 grid + gz * grid_width_f32 grid * grid_height_f32 grid)"

definition get_grid_coords_f32 ::
  "SpatialGrid_f32 \<Rightarrow> Vector3D_f32 \<Rightarrow> error + (int \<times> int \<times> int)" where
  "get_grid_coords_f32 grid pos =
     (case float_to_int_f32 (f32_div (xf pos) (cell_size_f32 grid)) of
        Inl e \<Rightarrow> Inl e
      | Inr x_out \<Rightarrow>
         (case float_to_int_f32 (f32_div (yf pos) (cell_size_f32 grid)) of
            Inl e \<Rightarrow> Inl e
          | Inr y_out \<Rightarrow>
             (case float_to_int_f32 (f32_div (zf pos) (cell_size_f32 grid)) of
                Inl e \<Rightarrow> Inl e
              | Inr z_out \<Rightarrow> Inr (x_out, y_out, z_out))))"

definition particle_cell_f32 :: "SpatialGrid_f32 \<Rightarrow> Particle_f32 list \<Rightarrow> nat \<Rightarrow> error + int" where
  "particle_cell_f32 grid ps i =
     (case array_read ps (int i) of
        Inl e \<Rightarrow> Inl e
      | Inr p \<Rightarrow>
         (case get_grid_coords_f32 grid (position_f32 p) of
            Inl e \<Rightarrow> Inl e
          | Inr (gx, gy, gz) \<Rightarrow> Inr (get_cell_index_f32 grid gx gy gz)))"

definition count_particle_f32 ::
  "SpatialGrid_f32 \<Rightarrow> Particle_f32 list \<Rightarrow> nat \<Rightarrow> int list \<Rightarrow> error + int list" where
  "count_particle_f32 grid ps i counts =
     (case particle_cell_f32 grid ps i of
        Inl e \<Rightarrow> Inl e
      | Inr cell_idx \<Rightarrow>
         if cell_idx \<ge> 0
         then (case array_read counts cell_idx of
                 Inl e \<Rightarrow> Inl e
               | Inr c \<Rightarrow> array_write counts cell_idx (c + 1))
         else Inr counts)"

definition place_particle_f32 ::
  "SpatialGrid_f32 \<Rightarrow> Particle_f32 list \<Rightarrow> int list \<Rightarrow> nat \<Rightarrow> int list \<times> int list
     \<Rightarrow> error + (int list \<times> int list)" where
  "place_particle_f32 grid ps starts i st =
     (case st of (indices, counts) \<Rightarrow>
        (case particle_cell_f32 grid ps i of
           Inl e \<Rightarrow> Inl e
         | Inr cell_idx \<Rightarrow>
            if cell_idx \<ge> 0
            then (case array_read starts cell_idx of
                    Inl e \<Rightarrow> Inl e
                  | Inr s \<Rightarrow>
                     (case array_read counts cell_idx of
                        Inl e \<Rightarrow> Inl e
                      | Inr c \<Rightarrow>
                         (case array_write indices (s + c) (int i) of
                            Inl e \<Rightarrow> Inl e
                          | Inr indices' \<Rightarrow>
                             (case array_write counts cell_idx (c + 1) of
                                Inl e \<Rightarrow> Inl e
                              | Inr counts' \<Rightarrow> Inr (indices', counts')))))
            else Inr (indices, counts)))"

definition spatial_grid_update_f32 ::
  "SpatialGrid_f32 \<Rightarrow> Particle_f32 list \<Rightarrow> int \<Rightarrow> error + SpatialGrid_f32" where
  "spatial_grid_update_f32 grid ps cnt =
     (case memset_int (cell_counts_f32 grid) 0 (total_cells_f32 grid) of
        Inl e \<Rightarrow> Inl e
      | Inr counts0 \<Rightarrow>
     (case memset_int (cell_starts_f32 grid) (- 1) (total_cells_f32 grid) of
        Inl e \<Rightarrow> Inl e
      | Inr starts0 \<Rightarrow>
     (case for_loop (\<lambda>_. True) (count_particle_f32 grid ps) [0..<nat cnt] counts0 of
        Inl e \<Rightarrow> Inl e
      | Inr counts1 \<Rightarrow>
     (case for_loop (\<lambda>_. True) (assign_start counts1) [0..<nat (total_cells_f32 grid)]
             (starts0, 0) of
        Inl e \<Rightarrow> Inl e
      | Inr (starts1, offset) \<Rightarrow>
     (case memset_int counts1 0 (total_cells_f32 grid) of
        Inl e \<Rightarrow> Inl e
      | Inr counts2 \<Rightarrow>
     (case for_loop (\<lambda>_. True) (place_particle_f32 grid ps starts1) [0..<nat cnt]
             (particle_indices_f32 grid, counts2) of
        Inl e \<Rightarrow> Inl e
      | Inr (indices, counts3) \<Rightarrow>
          Inr (grid\<lparr>particle_indices_f32 := indices, cell_starts_f32 := starts1,
                    cell_counts_f32 := counts3\<rparr>)))))))"

definition vec3_dist_sq_inline_f32 :: "Vector3D_f32 \<Rightarrow> Vector3D_f32 \<Rightarrow> float32" where
  "vec3_dist_sq_inline_f32 v1 v2 =
     (let dx = f32_sub (xf v1) (xf v2); dy = f32_sub (yf v1) (yf v2);
          dz = f32_sub (zf v1) (zf v2)
      in f32_add (f32_add (f32_mul dx dx) (f32_mul dy dy)) (f32_mul dz dz))"

definition test_candidate_f32 ::
  "SpatialGrid_f32 \<Rightarrow> Particle_f32 list \<Rightarrow> Vector3D_f32 \<Rightarrow> float32 \<Rightarrow> int \<Rightarrow> nat
     \<Rightarrow> int list \<times> int \<Rightarrow> error + (int list \<times> int)" where
  "test_candidate_f32 grid ps point radius_sq start i st =
     (case st of (buf, neighbor_count) \<Rightarrow>
        (case array_read (particle_indices_f32 grid) (start + int i) of
           Inl e \<Rightarrow> Inl e
         | Inr particle_idx \<Rightarrow>
            (case array_read ps particle_idx of
               Inl e \<Rightarrow> Inl e
             | Inr other \<Rightarrow>
                (let dist_sq = vec3_dist_sq_inline_f32 point (position_f32 other)
                 in if f32_less dist_sq radius_sq
                    then (case array_write buf neighbor_count particle_idx of
                            Inl e \<Rightarrow> Inl e
                          | Inr buf' \<Rightarrow> Inr (buf', neighbor_count + 1))
                    else Inr (buf, neighbor_count)))))"

definition scan_cell_f32 ::
  "SpatialGrid_f32 \<Rightarrow> Particle_f32 list \<Rightarrow> Vector3D_f32 \<Rightarrow> float32 \<Rightarrow> int \<Rightarrow> int \<Rightarrow> int
     \<Rightarrow> int list \<times> int \<Rightarrow> error + (int list \<times> int)" where
  "scan_cell_f32 grid ps point radius_sq gx gy gz st =
     (let cell_idx = get_cell_index_f32 grid gx gy gz
      in if cell_idx < 0 then Inr st
         else (case array_read (cell_starts_f32 grid) cell_idx of
                 Inl e \<Rightarrow> Inl e
               | Inr start \<Rightarrow>
                  (case array_read (cell_counts_f32 grid) cell_idx of
                     Inl e \<Rightarrow> Inl e
                   | Inr cnt \<Rightarrow>
                      if start < 0 then Inr st
                      else for_loop room_left
                             (test_candidate_f32 grid ps point radius_sq start)
                             [0..<nat cnt] st)))"

definition spatial_grid_query_neighbors_f32 ::
  "SpatialGrid_f32 \<Rightarrow> Particle_f32 list \<Rightarrow> Vector3D_f32 \<Rightarrow> float32 \<Rightarrow> int list
     \<Rightarrow> error + (int list \<times> int)" where
  "spatial_grid_query_neighbors_f32 grid ps point radius buffer =
     (case get_grid_coords_f32 grid point of
        Inl e \<Rightarrow> Inl e
      | Inr (cx, cy, cz) \<Rightarrow>
         (let cell_radius = 1;
              radius_sq = f32_mul radius radius
          in for_loop room_left
               (\<lambda>dz. for_loop room_left
                  (\<lambda>dy. for_loop room_left
                     (\<lambda>dx. scan_cell_f32 grid ps point radius_sq (cx + dx) (cy + dy) (cz + dz))
                     [- cell_radius..cell_radius])
                  [- cell_radius..cell_radius])
               [- cell_radius..cell_radius]
               (buffer, 0)))"

subsection \<open>Specification of the grid in binary32\<close>

text \<open>The cell of a particle, -1 outside the grid or when a coordinate has no \<open>int\<close>
  value.\<close>

definition cell_of_f32 :: "SpatialGrid_f32 \<Rightarrow> Particle_f32 \<Rightarrow> int" where
  "cell_of_f32 g p =
     (case get_grid_coords_f32 g (position_f32 p) of
        Inl e \<Rightarrow> - 1
      | Inr (gx, gy, gz) \<Rightarrow> get_cell_index_f32 g gx gy gz)"

definition convertible_f32 :: "SpatialGrid_f32 \<Rightarrow> Vector3D_f32 \<Rightarrow> bool" where
  "convertible_f32 g pos = (case get_grid_coords_f32 g pos of Inl e \<Rightarrow> False | Inr c \<Rightarrow> True)"

definition cell_run_f32 :: "SpatialGrid_f32 \<Rightarrow> nat \<Rightarrow> int list" where
  "cell_run_f32 g c =
     take (nat (cell_counts_f32 g ! c))
          (drop (nat (cell_starts_f32 g ! c)) (particle_indices_f32 g))"

definition grid_wf_f32 :: "SpatialGrid_f32 \<Rightarrow> bool" where
  "grid_wf_f32 g =
     (0 \<le> total_cells_f32 g
      \<and> total_cells_f32 g = grid_width_f32 g * grid_height_f32 g * grid_depth_f32 g
      \<and> length (cell_starts_f32 g) = nat (total_cells_f32 g)
      \<and> length (cell_counts_f32 g) = nat (total_cells_f32 g)
      \<and> length (particle_indices_f32 g) = nat (num_particles_f32 g))"

text \<open>The acceptance test of the query, as the code evaluates it.\<close>

definition in_range_f32 :: "Particle_f32 list \<Rightarrow> Vector3D_f32 \<Rightarrow> float32 \<Rightarrow> int \<Rightarrow> bool" where
  "in_range_f32 ps point radius j =
     f32_less (vec3_dist_sq_inline_f32 point (position_f32 (ps ! nat j))) (f32_mul radius radius)"

text \<open>The cell of the position is in the 3 x 3 x 3 block around the cell of the point.\<close>

definition in_block :: "SpatialGrid_f32 \<Rightarrow> Vector3D_f32 \<Rightarrow> Vector3D_f32 \<Rightarrow> bool" where
  "in_block g point pos =
     (case get_grid_coords_f32 g point of
        Inl e \<Rightarrow> False
      | Inr (cx, cy, cz) \<Rightarrow>
         (case get_grid_coords_f32 g pos of
            Inl e \<Rightarrow> False
          | Inr (gx, gy, gz) \<Rightarrow>
             \<bar>gx - cx\<bar> \<le> 1 \<and> \<bar>gy - cy\<bar> \<le> 1 \<and> \<bar>gz - cz\<bar> \<le> 1))"

text \<open>
  The counting sort and the scan depend on the positions only through the cell
  coordinates. To carry the results about them over, a grid and its particles are mapped
  to a grid with cell size 1 and particles at the whole-number positions that have the
  same cell coordinates (a position without coordinates goes to one without).
\<close>

definition unit_grid :: "SpatialGrid_f32 \<Rightarrow> SpatialGrid" where
  "unit_grid g =
     \<lparr>particle_indices = particle_indices_f32 g, cell_starts = cell_starts_f32 g,
      cell_counts = cell_counts_f32 g, grid_width = grid_width_f32 g,
      grid_height = grid_height_f32 g, grid_depth = grid_depth_f32 g,
      cell_size = 1, total_cells = total_cells_f32 g,
      num_particles = num_particles_f32 g\<rparr>"

definition unit_position :: "SpatialGrid_f32 \<Rightarrow> Vector3D_f32 \<Rightarrow> Vector3D" where
  "unit_position g pos =
     (case get_grid_coords_f32 g pos of
        Inl e \<Rightarrow> \<lparr>xc = 2 ^ 40, yc = 0, zc = 0\<rparr>
      | Inr (gx, gy, gz) \<Rightarrow> \<lparr>xc = of_int gx, yc = of_int gy, zc = of_int gz\<rparr>)"

definition unit_particle :: "SpatialGrid_f32 \<Rightarrow> Particle_f32 \<Rightarrow> Particle" where
  "unit_particle g p =
     \<lparr>position = unit_position g (position_f32 p),
      velocity = \<lparr>xc = 0, yc = 0, zc = 0\<rparr>,
      acceleration = \<lparr>xc = 0, yc = 0, zc = 0\<rparr>,
      max_speed = 0, max_force = 0\<rparr>"

subsection \<open>A scenario for the grid boundary in binary32\<close>

text \<open>A particle at rest at a position of binary32 values.\<close>

definition still_at_f32 :: "real \<Rightarrow> real \<Rightarrow> real \<Rightarrow> Particle_f32" where
  "still_at_f32 a b c =
     \<lparr>position_f32 = \<lparr>xf = Finite a, yf = Finite b, zf = Finite c\<rparr>,
      velocity_f32 = \<lparr>xf = Finite 0, yf = Finite 0, zf = Finite 0\<rparr>,
      acceleration_f32 = \<lparr>xf = Finite 0, yf = Finite 0, zf = Finite 0\<rparr>,
      max_speed_f32 = Finite 4, max_force_f32 = round32 (1 / 10)\<rparr>"

text \<open>The world of 100 x 100 x 100 with cells of 50, one particle slightly below zero.\<close>

definition edge_ps :: "Particle_f32 list" where
  "edge_ps = [still_at_f32 (- 5) 10 10, still_at_f32 10 10 10]"

definition edge_grid :: SpatialGrid_f32 where
  "edge_grid = \<lparr>particle_indices_f32 = [7, 7, 7, 7, 7],
                cell_starts_f32 = [7, 7, 7, 7, 7, 7, 7, 7],
                cell_counts_f32 = [7, 7, 7, 7, 7, 7, 7, 7],
                grid_width_f32 = 2, grid_height_f32 = 2, grid_depth_f32 = 2,
                cell_size_f32 = Finite 50, total_cells_f32 = 8, num_particles_f32 = 5\<rparr>"

definition edge_built :: SpatialGrid_f32 where
  "edge_built = \<lparr>particle_indices_f32 = [0, 1, 7, 7, 7],
                 cell_starts_f32 = [0, - 1, - 1, - 1, - 1, - 1, - 1, - 1],
                 cell_counts_f32 = [2, 0, 0, 0, 0, 0, 0, 0],
                 grid_width_f32 = 2, grid_height_f32 = 2, grid_depth_f32 = 2,
                 cell_size_f32 = Finite 50, total_cells_f32 = 8, num_particles_f32 = 5\<rparr>"

text \<open>
  A row of nine cells of size 0.1f (the binary32 value nearest to 0.1, which is
  13421773 / 2^27) and a particle at 0.9f (7549747 / 2^23), below nine cell sizes.
\<close>

definition row_ps :: "Particle_f32 list" where
  "row_ps = [still_at_f32 (7549747 / 2 ^ 23) 0 0]"

definition row_grid :: SpatialGrid_f32 where
  "row_grid = \<lparr>particle_indices_f32 = [7],
               cell_starts_f32 = [7, 7, 7, 7, 7, 7, 7, 7, 7],
               cell_counts_f32 = [7, 7, 7, 7, 7, 7, 7, 7, 7],
               grid_width_f32 = 9, grid_height_f32 = 1, grid_depth_f32 = 1,
               cell_size_f32 = Finite (13421773 / 2 ^ 27), total_cells_f32 = 9,
               num_particles_f32 = 1\<rparr>"

definition row_built :: SpatialGrid_f32 where
  "row_built = \<lparr>particle_indices_f32 = [7],
                cell_starts_f32 = [- 1, - 1, - 1, - 1, - 1, - 1, - 1, - 1, - 1],
                cell_counts_f32 = [0, 0, 0, 0, 0, 0, 0, 0, 0],
                grid_width_f32 = 9, grid_height_f32 = 1, grid_depth_f32 = 1,
                cell_size_f32 = Finite (13421773 / 2 ^ 27), total_cells_f32 = 9,
                num_particles_f32 = 1\<rparr>"

section \<open>Boundary wrap\<close>

lemma wrap_axis_closed: "0 \<le> e \<Longrightarrow> 0 \<le> wrap_axis c e \<and> wrap_axis c e \<le> e"
  by (simp add: wrap_axis_def Let_def)

lemma wrap_axis_beyond: "e < c \<Longrightarrow> wrap_axis c e = 0"
  by (simp add: wrap_axis_def Let_def)

lemma wrap_axis_below: "c < 0 \<Longrightarrow> c \<le> e \<Longrightarrow> wrap_axis c e = e"
  by (simp add: wrap_axis_def Let_def)

lemma wrap_axis_inside: "0 \<le> c \<Longrightarrow> c \<le> e \<Longrightarrow> wrap_axis c e = c"
  by (simp add: wrap_axis_def Let_def)

text \<open>
  C4, as stated: after \<open>particle_wrap\<close> every position component lies in the half-open
  interval \<open>[0, extent)\<close>. This fails: a particle at \<open>x = -1\<close> in a world of width 800 is
  moved to \<open>x = 800\<close>, which is not below 800.
\<close>

theorem particle_wrap_half_open_counterexample:
  "\<not> (0 \<le> xc (position (particle_wrap
            \<lparr>position = \<lparr>xc = -1, yc = 10, zc = 10\<rparr>,
             velocity = \<lparr>xc = 0, yc = 0, zc = 0\<rparr>,
             acceleration = \<lparr>xc = 0, yc = 0, zc = 0\<rparr>,
             max_speed = 4, max_force = 1 / 10\<rparr> 800 600 600))
        \<and> xc (position (particle_wrap
            \<lparr>position = \<lparr>xc = -1, yc = 10, zc = 10\<rparr>,
             velocity = \<lparr>xc = 0, yc = 0, zc = 0\<rparr>,
             acceleration = \<lparr>xc = 0, yc = 0, zc = 0\<rparr>,
             max_speed = 4, max_force = 1 / 10\<rparr> 800 600 600)) < 800)"
  by (simp add: particle_wrap_def wrap_axis_def)

text \<open>
  C4, amended: after \<open>particle_wrap\<close> with non-negative extents every position component
  lies in the closed interval \<open>[0, extent]\<close> of its axis.
\<close>

theorem particle_wrap_closed_interval:
  assumes "0 \<le> width" and "0 \<le> height" and "0 \<le> depth"
  shows "0 \<le> xc (position (particle_wrap p width height depth))
       \<and> xc (position (particle_wrap p width height depth)) \<le> width
       \<and> 0 \<le> yc (position (particle_wrap p width height depth))
       \<and> yc (position (particle_wrap p width height depth)) \<le> height
       \<and> 0 \<le> zc (position (particle_wrap p width height depth))
       \<and> zc (position (particle_wrap p width height depth)) \<le> depth"
  using assms by (simp add: particle_wrap_def wrap_axis_closed)

theorem particle_wrap_closed_interval_witness:
  "(0::real) \<le> 800 \<and> (0::real) \<le> 600
   \<and> xc (position (particle_wrap
            \<lparr>position = \<lparr>xc = -1, yc = 700, zc = 10\<rparr>,
             velocity = \<lparr>xc = 0, yc = 0, zc = 0\<rparr>,
             acceleration = \<lparr>xc = 0, yc = 0, zc = 0\<rparr>,
             max_speed = 4, max_force = 1 / 10\<rparr> 800 600 600)) \<le> 800
   \<and> 0 \<le> yc (position (particle_wrap
            \<lparr>position = \<lparr>xc = -1, yc = 700, zc = 10\<rparr>,
             velocity = \<lparr>xc = 0, yc = 0, zc = 0\<rparr>,
             acceleration = \<lparr>xc = 0, yc = 0, zc = 0\<rparr>,
             max_speed = 4, max_force = 1 / 10\<rparr> 800 600 600))"
  using particle_wrap_closed_interval [of 800 600 600
            "\<lparr>position = \<lparr>xc = -1, yc = 700, zc = 10\<rparr>,
             velocity = \<lparr>xc = 0, yc = 0, zc = 0\<rparr>,
             acceleration = \<lparr>xc = 0, yc = 0, zc = 0\<rparr>,
             max_speed = 4, max_force = 1 / 10\<rparr>"]
  by simp

text \<open>
  C5, as stated: a component at \<open>extent + \<epsilon>\<close> wraps to \<open>\<epsilon>\<close>. This fails: the code
  resets a component beyond the extent to the opposite boundary, so \<open>x = 805\<close> in a world
  of width 800 becomes 0, not 5.
\<close>

theorem particle_wrap_modular_counterexample:
  "xc (position (particle_wrap
            \<lparr>position = \<lparr>xc = 805, yc = 10, zc = 10\<rparr>,
             velocity = \<lparr>xc = 0, yc = 0, zc = 0\<rparr>,
             acceleration = \<lparr>xc = 0, yc = 0, zc = 0\<rparr>,
             max_speed = 4, max_force = 1 / 10\<rparr> 800 600 600)) \<noteq> 5"
  by (simp add: particle_wrap_def wrap_axis_def)

text \<open>
  C5, amended: \<open>particle_wrap\<close> treats each axis independently by \<open>wrap_axis\<close>; a
  component strictly beyond the extent is reset to 0, a component below 0 is reset to the
  extent, and a component inside \<open>[0, extent)\<close> is left as it is, so that wrapping a
  particle whose position is in bounds changes nothing.
\<close>

theorem particle_wrap_per_axis:
  "position (particle_wrap p width height depth) =
      \<lparr>xc = wrap_axis (xc (position p)) width,
       yc = wrap_axis (yc (position p)) height,
       zc = wrap_axis (zc (position p)) depth\<rparr>
   \<and> (e < c \<longrightarrow> wrap_axis c e = 0)
   \<and> (c < 0 \<and> 0 \<le> e \<longrightarrow> wrap_axis c e = e)
   \<and> (0 \<le> c \<and> c < e \<longrightarrow> wrap_axis c e = c)
   \<and> (0 \<le> xc (position p) \<and> xc (position p) < width
        \<and> 0 \<le> yc (position p) \<and> yc (position p) < height
        \<and> 0 \<le> zc (position p) \<and> zc (position p) < depth
        \<longrightarrow> particle_wrap p width height depth = p)"
  by (simp add: particle_wrap_def wrap_axis_beyond wrap_axis_below wrap_axis_inside)

theorem particle_wrap_per_axis_witness:
  "wrap_axis 805 800 = 0 \<and> wrap_axis (-1) 800 = 800 \<and> wrap_axis 10 800 = 10
   \<and> particle_wrap
            \<lparr>position = \<lparr>xc = 10, yc = 20, zc = 30\<rparr>,
             velocity = \<lparr>xc = 0, yc = 0, zc = 0\<rparr>,
             acceleration = \<lparr>xc = 0, yc = 0, zc = 0\<rparr>,
             max_speed = 4, max_force = 1 / 10\<rparr> 800 600 600
       = \<lparr>position = \<lparr>xc = 10, yc = 20, zc = 30\<rparr>,
             velocity = \<lparr>xc = 0, yc = 0, zc = 0\<rparr>,
             acceleration = \<lparr>xc = 0, yc = 0, zc = 0\<rparr>,
             max_speed = 4, max_force = 1 / 10\<rparr>"
  using particle_wrap_per_axis [of
            "\<lparr>position = \<lparr>xc = 10, yc = 20, zc = 30\<rparr>,
             velocity = \<lparr>xc = 0, yc = 0, zc = 0\<rparr>,
             acceleration = \<lparr>xc = 0, yc = 0, zc = 0\<rparr>,
             max_speed = 4, max_force = 1 / 10\<rparr>" 800 600 600 800 805]
        particle_wrap_per_axis [of
            "\<lparr>position = \<lparr>xc = 10, yc = 20, zc = 30\<rparr>,
             velocity = \<lparr>xc = 0, yc = 0, zc = 0\<rparr>,
             acceleration = \<lparr>xc = 0, yc = 0, zc = 0\<rparr>,
             max_speed = 4, max_force = 1 / 10\<rparr>" 800 600 600 800 "-1"]
        particle_wrap_per_axis [of
            "\<lparr>position = \<lparr>xc = 10, yc = 20, zc = 30\<rparr>,
             velocity = \<lparr>xc = 0, yc = 0, zc = 0\<rparr>,
             acceleration = \<lparr>xc = 0, yc = 0, zc = 0\<rparr>,
             max_speed = 4, max_force = 1 / 10\<rparr>" 800 600 600 800 10]
  by simp

section \<open>Loops\<close>

lemma for_loop_stop: "\<not> c s \<Longrightarrow> for_loop c body xs s = Inr s"
  by (cases xs) simp_all





section \<open>The distance guard of the flocking step\<close>









section \<open>The neighbour buffer never overflows\<close>

lemma for_loop_safe:
  assumes "buffer_ok n st"
    and "\<And>x s. x \<in> set xs \<Longrightarrow> buffer_ok n s \<Longrightarrow> c s \<Longrightarrow> safe_result n (body x s)"
  shows "safe_result n (for_loop c body xs st)"
  using assms
proof (induction xs arbitrary: st)
  case Nil
  then show ?case by (simp add: safe_result_def)
next
  case (Cons x xs)
  show ?case
  proof (cases "c st")
    case False
    then show ?thesis using Cons.prems(1) by (simp add: safe_result_def)
  next
    case True
    have sx: "safe_result n (body x st)"
      using Cons.prems True by simp
    show ?thesis
    proof (cases "body x st")
      case (Inl e)
      then show ?thesis using sx True by (simp add: safe_result_def)
    next
      case (Inr st')
      then have "buffer_ok n st'" using sx by (simp add: safe_result_def)
      then have "safe_result n (for_loop c body xs st')"
        using Cons.IH Cons.prems(2) by simp
      then show ?thesis using Inr True by simp
    qed
  qed
qed

lemma test_candidate_safe:
  assumes "buffer_ok (nat MAX_NEIGHBORS) st" and "room_left st"
  shows "safe_result (nat MAX_NEIGHBORS) (test_candidate g ps point rsq start i st)"
  using assms
  by (cases st)
     (auto simp: test_candidate_def safe_result_def buffer_ok_def room_left_def
        array_read_def array_write_def Let_def MAX_NEIGHBORS_def split: sum.splits)

lemma scan_cell_safe:
  assumes "buffer_ok (nat MAX_NEIGHBORS) st"
  shows "safe_result (nat MAX_NEIGHBORS) (scan_cell g ps point rsq gx gy gz st)"
proof -
  have loop: "safe_result (nat MAX_NEIGHBORS)
                (for_loop room_left (test_candidate g ps point rsq start) is st)" for start "is"
    using assms by (rule for_loop_safe) (rule test_candidate_safe)
  have here: "safe_result (nat MAX_NEIGHBORS) (Inr st)"
    using assms by (simp add: safe_result_def)
  show ?thesis
    using loop here
    by (simp add: scan_cell_def Let_def array_read_def safe_result_def split: sum.splits)
qed

text \<open>
  C6: whatever the grid, the particles, the query point and the radius are, a call of
  \<open>spatial_grid_query_neighbors\<close> never writes outside the \<open>MAX_NEIGHBORS\<close> slots of its
  buffer, and a call that returns gives a count between 0 and \<open>MAX_NEIGHBORS\<close>.
\<close>

theorem query_within_capacity:
  assumes "length buf = nat MAX_NEIGHBORS"
  shows "spatial_grid_query_neighbors g ps point radius buf \<noteq> Inl WriteOutOfBounds
       \<and> (\<forall>buf' n. spatial_grid_query_neighbors g ps point radius buf = Inr (buf', n)
             \<longrightarrow> 0 \<le> n \<and> n \<le> MAX_NEIGHBORS \<and> length buf' = nat MAX_NEIGHBORS)"
proof -
  have start: "buffer_ok (nat MAX_NEIGHBORS) (buf, 0)"
    using assms by (simp add: buffer_ok_def MAX_NEIGHBORS_def)
  have "safe_result (nat MAX_NEIGHBORS)
          (for_loop room_left
             (\<lambda>dz. for_loop room_left
                (\<lambda>dy. for_loop room_left
                   (\<lambda>dx. scan_cell g ps point rsq (cx + dx) (cy + dy) (cz + dz)) xs)
                ys)
             zs (buf, 0))" for cx cy cz rsq and xs ys zs :: "int list"
    using start
    by (intro for_loop_safe scan_cell_safe)
  then have "safe_result (nat MAX_NEIGHBORS) (spatial_grid_query_neighbors g ps point radius buf)"
    by (simp add: spatial_grid_query_neighbors_def Let_def safe_result_def
          get_grid_coords_def float_to_int_def split: sum.splits prod.splits)
  then show ?thesis
    by (auto simp: safe_result_def buffer_ok_def split: sum.splits)
qed


theorem query_within_capacity_witness:
  "length (replicate 10 (0::int)) = nat MAX_NEIGHBORS
   \<and> spatial_grid_query_neighbors cluster_grid cluster_ps \<lparr>xc = 50, yc = 50, zc = 50\<rparr> 10
         (replicate 10 0)
       = Inr ([0, 1, 2, 3, 4, 5, 6, 7, 8, 9], 10)
   \<and> (10::int) \<le> MAX_NEIGHBORS"
proof -
  have l: "length (replicate 10 (0::int)) = nat MAX_NEIGHBORS"
    by (simp add: MAX_NEIGHBORS_def)
  have e: "spatial_grid_query_neighbors cluster_grid cluster_ps
             \<lparr>xc = 50, yc = 50, zc = 50\<rparr> 10 (replicate 10 0)
           = Inr ([0, 1, 2, 3, 4, 5, 6, 7, 8, 9], 10)"
    by code_simp
  from query_within_capacity [OF l, of cluster_grid cluster_ps
         "\<lparr>xc = 50, yc = 50, zc = 50\<rparr>" 10] e l
  show ?thesis by simp
qed

section \<open>The counting sort of \<open>spatial_grid_update\<close>\<close>

lemma for_loop_append:
  "for_loop c body (xs @ ys) s =
     (case for_loop c body xs s of Inl e \<Rightarrow> Inl e | Inr s' \<Rightarrow> for_loop c body ys s')"
  by (induction xs arbitrary: s) (auto split: sum.splits simp: for_loop_stop)

lemma for_loop_snoc_True:
  "for_loop (\<lambda>_. True) body (xs @ [x]) s =
     (case for_loop (\<lambda>_. True) body xs s of Inl e \<Rightarrow> Inl e | Inr s' \<Rightarrow> body x s')"
  by (simp add: for_loop_append split: sum.splits)

lemma tally_Nil: "tally k [] c = 0"
  by (simp add: tally_def)

lemma tally_Cons: "tally k (i # is) c = (if k i = int c then 1 else 0) + tally k is c"
  by (simp add: tally_def)

lemma tally_snoc: "tally k (is @ [i]) c = tally k is c + (if k i = int c then 1 else 0)"
  by (simp add: tally_def)

lemma tally_mono_upt: "a \<le> b \<Longrightarrow> tally k [0..<a] c \<le> tally k [0..<b] c"
proof -
  assume "a \<le> b"
  then have "[0..<b] = [0..<a] @ [a..<b]"
    by (metis le_add_diff_inverse upt_add_eq_append zero_le)
  then show ?thesis by (simp add: tally_def)
qed

text \<open>First loop: every cell count grows by the number of particles of the cell.\<close>

lemma count_particle_step:
  assumes "particle_cell g ps i = Inr c0" and "c0 < int (length counts)"
  shows "count_particle g ps i counts =
           Inr (if 0 \<le> c0 then counts[nat c0 := counts ! nat c0 + 1] else counts)"
  using assms by (simp add: count_particle_def array_read_def array_write_def)

lemma count_loop:
  assumes "\<forall>i\<in>set is. particle_cell g ps i = Inr (k i) \<and> k i < int (length counts)"
  shows "\<exists>counts'. for_loop (\<lambda>_. True) (count_particle g ps) is counts = Inr counts'
           \<and> length counts' = length counts
           \<and> (\<forall>c<length counts. counts' ! c = counts ! c + int (tally k is c))"
  using assms
proof (induction "is" arbitrary: counts)
  case Nil
  then show ?case by (simp add: tally_Nil)
next
  case (Cons i "is")
  let ?c1 = "if 0 \<le> k i then counts[nat (k i) := counts ! nat (k i) + 1] else counts"
  have step: "count_particle g ps i counts = Inr ?c1"
    using Cons.prems by (intro count_particle_step) auto
  have len: "length ?c1 = length counts" by simp
  have "\<forall>j\<in>set is. particle_cell g ps j = Inr (k j) \<and> k j < int (length ?c1)"
    using Cons.prems len by auto
  from Cons.IH [OF this] obtain counts' where
    loop: "for_loop (\<lambda>_. True) (count_particle g ps) is ?c1 = Inr counts'"
    and l': "length counts' = length ?c1"
    and v': "\<forall>c<length ?c1. counts' ! c = ?c1 ! c + int (tally k is c)"
    by blast
  have "counts' ! c = counts ! c + int (tally k (i # is) c)" if "c < length counts" for c
  proof -
    have "counts' ! c = ?c1 ! c + int (tally k is c)" using v' that by simp
    moreover have "?c1 ! c = counts ! c + (if k i = int c then 1 else 0)"
      using that by (auto simp: nth_list_update)
    ultimately show ?thesis by (simp add: tally_Cons)
  qed
  then show ?case using step loop l' by simp
qed

text \<open>Second loop: prefix sums of the counts become the starts of the occupied cells.\<close>

lemma start_loop:
  assumes "length starts = length counts" and "\<forall>c<length counts. 0 \<le> counts ! c"
    and "n \<le> length counts"
  shows "for_loop (\<lambda>_. True) (assign_start counts) [0..<n] (starts, 0) =
           Inr (map (\<lambda>c. if c < n \<and> counts ! c > 0 then (\<Sum>j<c. counts ! j) else starts ! c)
                    [0..<length starts],
                (\<Sum>j<n. counts ! j))"
  using assms(3)
proof (induction n)
  case 0
  then show ?case by (simp add: map_nth)
next
  case (Suc n)
  let ?st = "map (\<lambda>c. if c < n \<and> counts ! c > 0 then (\<Sum>j<c. counts ! j) else starts ! c)
                 [0..<length starts]"
  have n: "n < length counts" using Suc.prems by simp
  have prev: "for_loop (\<lambda>_. True) (assign_start counts) [0..<n] (starts, 0) =
                Inr (?st, (\<Sum>j<n. counts ! j))"
    using Suc by simp
  have upd: "?st[n := (\<Sum>j<n. counts ! j)]
             = map (\<lambda>c. if c < Suc n \<and> counts ! c > 0 then (\<Sum>j<c. counts ! j) else starts ! c)
                   [0..<length starts]" if "counts ! n > 0"
    using that n assms(1) by (intro nth_equalityI) (auto simp: nth_list_update less_Suc_eq)
  have same: "?st
             = map (\<lambda>c. if c < Suc n \<and> counts ! c > 0 then (\<Sum>j<c. counts ! j) else starts ! c)
                   [0..<length starts]" if "\<not> counts ! n > 0"
    using that by (intro nth_equalityI) (auto simp: less_Suc_eq)
  have zero: "counts ! n = 0" if "\<not> counts ! n > 0"
    using that assms(2) n by (simp add: order.antisym)
  have step: "assign_start counts n (?st, (\<Sum>j<n. counts ! j)) =
          Inr (map (\<lambda>c. if c < Suc n \<and> counts ! c > 0 then (\<Sum>j<c. counts ! j)
                        else starts ! c) [0..<length starts],
               (\<Sum>j<Suc n. counts ! j))"
  proof (cases "counts ! n > 0")
    case True
    then show ?thesis
      using n assms(1) upd
      by (simp add: assign_start_def array_read_def array_write_def)
  next
    case False
    then show ?thesis
      using n assms(1) same zero
      by (simp add: assign_start_def array_read_def)
  qed
  show ?case
    by (simp only: upt_Suc_append [OF le0] for_loop_snoc_True prev sum.case step)
qed

text \<open>Prefix sums of natural numbers: the runs of two different cells do not overlap.\<close>

lemma prefix_sum_mono:
  fixes f :: "nat \<Rightarrow> nat"
  shows "a \<le> b \<Longrightarrow> (\<Sum>j<a. f j) \<le> (\<Sum>j<b. f j)"
  by (rule sum_mono2) auto

lemma runs_disjoint:
  fixes f :: "nat \<Rightarrow> nat"
  assumes "a \<noteq> b" and "i < f a" and "j < f b"
  shows "(\<Sum>x<a. f x) + i \<noteq> (\<Sum>x<b. f x) + j"
proof -
  have less: "(\<Sum>x<c. f x) + u < (\<Sum>x<d. f x) + v" if "c < d" and "u < f c" for c d u v
  proof -
    have "(\<Sum>x<c. f x) + u < (\<Sum>x<Suc c. f x)" using that by simp
    also have "\<dots> \<le> (\<Sum>x<d. f x)" using that by (intro prefix_sum_mono) simp
    finally show ?thesis by simp
  qed
  show ?thesis
  proof (cases "a < b")
    case True
    then show ?thesis using less [of a b i j] assms by simp
  next
    case False
    then have "b < a" using assms by simp
    then show ?thesis using less [of b a j i] assms by simp
  qed
qed

text \<open>Third loop: after the first \<open>q\<close> particles, the count of every cell is the number
  of them in the cell, and they fill the front of the run of the cell in their order.\<close>

lemma place_loop:
  assumes pc: "\<forall>i<n. particle_cell g ps i = Inr (k i) \<and> k i < int m"
    and sl: "length starts = m"
    and sv: "\<forall>c<m. 0 < tally k [0..<n] c \<longrightarrow> starts ! c = int (\<Sum>j<c. tally k [0..<n] j)"
    and room: "(\<Sum>j<m. tally k [0..<n] j) \<le> length indices"
    and q: "q \<le> n"
  shows "\<exists>ix ct. for_loop (\<lambda>_. True) (place_particle g ps starts) [0..<q]
                     (indices, replicate m 0) = Inr (ix, ct)
           \<and> length ix = length indices \<and> length ct = m
           \<and> (\<forall>c<m. ct ! c = int (tally k [0..<q] c))
           \<and> (\<forall>c<m. \<forall>j<tally k [0..<q] c.
                  ix ! ((\<Sum>x<c. tally k [0..<n] x) + j)
                    = int (filter (\<lambda>i. k i = int c) [0..<q] ! j))"
  using q
proof (induction q)
  case 0
  then show ?case by (simp add: tally_Nil)
next
  case (Suc q)
  let ?tot = "\<lambda>c. tally k [0..<n] c"
  let ?S = "\<lambda>c. \<Sum>x<c. ?tot x"
  from Suc obtain ix ct where
    run: "for_loop (\<lambda>_. True) (place_particle g ps starts) [0..<q]
            (indices, replicate m 0) = Inr (ix, ct)"
    and lix: "length ix = length indices" and lct: "length ct = m"
    and cv: "\<forall>c<m. ct ! c = int (tally k [0..<q] c)"
    and iv: "\<forall>c<m. \<forall>j<tally k [0..<q] c.
               ix ! (?S c + j) = int (filter (\<lambda>i. k i = int c) [0..<q] ! j)"
    by auto
  have qn: "q < n" using Suc.prems by simp
  have pq: "particle_cell g ps q = Inr (k q)" and kq: "k q < int m"
    using pc qn by auto
  have all: "for_loop (\<lambda>_. True) (place_particle g ps starts) [0..<Suc q]
               (indices, replicate m 0) = place_particle g ps starts q (ix, ct)"
    by (simp only: upt_Suc_append [OF le0] for_loop_snoc_True run sum.case)
  show ?case
  proof (cases "0 \<le> k q")
    case False
    then have "place_particle g ps starts q (ix, ct) = Inr (ix, ct)"
      using pq by (simp add: place_particle_def)
    moreover have "tally k [0..<Suc q] c = tally k [0..<q] c" for c
      using False by (simp add: tally_snoc)
    moreover have "filter (\<lambda>i. k i = int c) [0..<Suc q] = filter (\<lambda>i. k i = int c) [0..<q]" for c
      using False by simp
    ultimately show ?thesis using all lix lct cv iv by simp
  next
    case True
    define c0 where "c0 = nat (k q)"
    define t where "t = tally k [0..<q] c0"
    have c0: "c0 < m" "k q = int c0" using True kq by (simp_all add: c0_def)
    have t1: "tally k [0..<Suc q] c0 = t + 1"
      using c0 by (simp add: tally_snoc t_def)
    have "tally k [0..<Suc q] c0 \<le> ?tot c0"
      using qn by (intro tally_mono_upt) simp
    then have tt: "t < ?tot c0" using t1 by simp
    define S0 where "S0 = ?S c0"
    have st: "starts ! c0 = int S0" using sv c0 tt by (simp only: S0_def)
    have "?S c0 + t < ?S (Suc c0)" using tt by simp
    also have "\<dots> \<le> ?S m" using c0 by (intro prefix_sum_mono) simp
    finally have w: "S0 + t < length ix" using room lix by (simp add: S0_def)
    let ?ix' = "ix[S0 + t := int q]"
    let ?ct' = "ct[c0 := int t + 1]"
    have ctq: "ct ! c0 = int t" using cv c0 by (simp add: t_def)
    have step: "place_particle g ps starts q (ix, ct) = Inr (?ix', ?ct')"
      using pq c0 st sl lct ctq w
      by (simp add: place_particle_def array_read_def array_write_def nat_add_distrib)
    have cnt: "?ct' ! c = int (tally k [0..<Suc q] c)" if "c < m" for c
      using that cv lct c0 by (auto simp: nth_list_update tally_snoc t_def)
    have content: "?ix' ! (?S c + j) = int (filter (\<lambda>i. k i = int c) [0..<Suc q] ! j)"
      if c: "c < m" and j: "j < tally k [0..<Suc q] c" for c j
    proof (cases "c = c0")
      case True
      have fl: "filter (\<lambda>i. k i = int c0) [0..<Suc q] = filter (\<lambda>i. k i = int c0) [0..<q] @ [q]"
        using c0 by simp
      have lt: "length (filter (\<lambda>i. k i = int c0) [0..<q]) = t"
        by (simp add: t_def tally_def)
      show ?thesis
      proof (cases "j < t")
        case True
        then have "?ix' ! (?S c0 + j) = ix ! (?S c0 + j)" by (simp add: S0_def)
        also have "\<dots> = int (filter (\<lambda>i. k i = int c0) [0..<q] ! j)"
          using iv c0 True by (simp add: t_def)
        finally show ?thesis using \<open>c = c0\<close> True fl lt by (simp add: nth_append)
      next
        case False
        then have "j = t" using j t1 \<open>c = c0\<close> by simp
        then show ?thesis using \<open>c = c0\<close> fl lt w by (simp add: nth_append S0_def)
      qed
    next
      case False
      then have same: "tally k [0..<Suc q] c = tally k [0..<q] c"
        using c0 by (simp add: tally_snoc)
      have fsame: "filter (\<lambda>i. k i = int c) [0..<Suc q] = filter (\<lambda>i. k i = int c) [0..<q]"
        using False c0 by simp
      have "tally k [0..<q] c \<le> ?tot c"
        using qn by (intro tally_mono_upt) simp
      then have "j < ?tot c" using j same by simp
      then have "?S c + j \<noteq> S0 + t"
        using runs_disjoint [of c c0 j ?tot t] False tt by (simp add: S0_def)
      then have "?ix' ! (?S c + j) = ix ! (?S c + j)" by simp
      then show ?thesis using iv c j same fsame by simp
    qed
    show ?thesis
      using all step lix lct cnt content by simp
  qed
qed

text \<open>Every particle is counted in at most one cell.\<close>

lemma tally_sum:
  "(\<Sum>c<m. tally k is c) = length (filter (\<lambda>i. 0 \<le> k i \<and> k i < int m) is)"
proof (induction "is")
  case Nil
  then show ?case by (simp add: tally_Nil)
next
  case (Cons i "is")
  have "(\<Sum>c<m. if k i = int c then 1 else 0 :: nat) = (if 0 \<le> k i \<and> k i < int m then 1 else 0)"
  proof (cases "0 \<le> k i")
    case True
    then have "(\<Sum>c<m. if k i = int c then 1 else 0 :: nat)
               = (\<Sum>c<m. if c = nat (k i) then 1 else 0)"
      by (intro sum.cong) auto
    also have "\<dots> = (if nat (k i) \<in> {..<m} then 1 else 0)"
      by (simp only: sum.delta [OF finite_lessThan])
    finally show ?thesis using True by auto
  next
    case False
    then have "(\<Sum>c<m. if k i = int c then 1 else 0 :: nat) = (\<Sum>c<m. 0)"
      by (intro sum.cong) auto
    then show ?thesis using False by simp
  qed
  then show ?case using Cons by (simp add: tally_Cons sum.distrib)
qed

lemma tally_sum_le: "(\<Sum>c<m. tally k js c) \<le> length js"
  by (simp add: tally_sum)

text \<open>A cell index is below the number of cells.\<close>

lemma get_cell_index_less:
  assumes "0 \<le> gx" "gx < w" "0 \<le> gy" "gy < h" "0 \<le> gz" "gz < d"
  shows "gx + gy * w + gz * w * h < w * h * (d :: int)"
proof -
  have "gy * w \<le> (h - 1) * w" using assms by (intro mult_right_mono) auto
  then have a: "gx + gy * w < h * w" using assms by (simp add: algebra_simps)
  have "gz * (w * h) \<le> (d - 1) * (w * h)" using assms by (intro mult_right_mono) auto
  then show ?thesis using a by (simp add: algebra_simps)
qed

lemma get_cell_index_range:
  assumes "grid_wf g"
  shows "- 1 \<le> get_cell_index g gx gy gz \<and> get_cell_index g gx gy gz < total_cells g"
proof (cases "get_cell_index g gx gy gz = - 1")
  case True
  then show ?thesis using assms by (simp add: grid_wf_def)
next
  case False
  then have r: "0 \<le> gx" "gx < grid_width g" "0 \<le> gy" "gy < grid_height g"
      "0 \<le> gz" "gz < grid_depth g"
    by (auto simp: get_cell_index_def split: if_splits)
  then have "get_cell_index g gx gy gz < grid_width g * grid_height g * grid_depth g"
    using get_cell_index_less [OF r] by (simp add: get_cell_index_def)
  moreover have "0 \<le> get_cell_index g gx gy gz"
    using r by (simp add: get_cell_index_def)
  ultimately show ?thesis using assms by (simp add: grid_wf_def)
qed

lemma cell_of_range:
  "grid_wf g \<Longrightarrow> - 1 \<le> cell_of g p \<and> cell_of g p < total_cells g"
  using get_cell_index_range [of g]
  by (auto simp: cell_of_def grid_wf_def split: sum.splits)

lemma particle_cell_cell_of:
  assumes "i < length ps" and "convertible g (position (ps ! i))"
  shows "particle_cell g ps i = Inr (cell_of g (ps ! i))"
  using assms
  by (auto simp: particle_cell_def array_read_def convertible_def cell_of_def
        split: sum.splits)

lemma memset_int_all: "length xs = nat n \<Longrightarrow> 0 \<le> n \<Longrightarrow> memset_int xs v n = Inr (replicate (nat n) v)"
  by (simp add: memset_int_def)

text \<open>The result of \<open>spatial_grid_update\<close> on a well-formed grid.\<close>

lemma spatial_grid_update_result:
  assumes wf: "grid_wf g" and np: "nat cnt \<le> length ps" and cap: "cnt \<le> num_particles g"
    and conv: "\<forall>i<nat cnt. convertible g (position (ps ! i))"
  shows "\<exists>ix. spatial_grid_update g ps cnt =
           Inr (g\<lparr>particle_indices := ix,
                  cell_starts :=
                    map (\<lambda>c. if 0 < tally (\<lambda>i. cell_of g (ps ! i)) [0..<nat cnt] c
                             then int (\<Sum>j<c. tally (\<lambda>i. cell_of g (ps ! i)) [0..<nat cnt] j)
                             else - 1)
                        [0..<nat (total_cells g)],
                  cell_counts :=
                    map (\<lambda>c. int (tally (\<lambda>i. cell_of g (ps ! i)) [0..<nat cnt] c))
                        [0..<nat (total_cells g)]\<rparr>)
         \<and> length ix = length (particle_indices g)
         \<and> (\<Sum>j<nat (total_cells g). tally (\<lambda>i. cell_of g (ps ! i)) [0..<nat cnt] j)
               \<le> length ix
         \<and> (\<forall>c<nat (total_cells g).
               \<forall>j<tally (\<lambda>i. cell_of g (ps ! i)) [0..<nat cnt] c.
                 ix ! ((\<Sum>x<c. tally (\<lambda>i. cell_of g (ps ! i)) [0..<nat cnt] x) + j)
                   = int (filter (\<lambda>i. cell_of g (ps ! i) = int c) [0..<nat cnt] ! j))"
proof -
  define k where "k = (\<lambda>i. cell_of g (ps ! i))"
  define n where "n = nat cnt"
  define m where "m = nat (total_cells g)"
  define tot where "tot = tally k [0..<n]"
  have tc: "0 \<le> total_cells g" and ls: "length (cell_starts g) = m"
    and lc: "length (cell_counts g) = m" and li: "length (particle_indices g) = nat (num_particles g)"
    using wf by (simp_all add: grid_wf_def m_def)
  have pc: "\<forall>i<n. particle_cell g ps i = Inr (k i) \<and> k i < int m"
    using np conv cell_of_range [OF wf] tc
    by (auto simp: n_def m_def k_def particle_cell_cell_of)
  have m0: "memset_int (cell_counts g) 0 (total_cells g) = Inr (replicate m 0)"
    using lc tc by (simp add: memset_int_all m_def)
  have m1: "memset_int (cell_starts g) (- 1) (total_cells g) = Inr (replicate m (- 1))"
    using ls tc by (simp add: memset_int_all m_def)
  have "\<forall>i\<in>set [0..<n]. particle_cell g ps i = Inr (k i)
          \<and> k i < int (length (replicate m (0::int)))"
    using pc by simp
  from count_loop [OF this] obtain counts1 where
    c1: "for_loop (\<lambda>_. True) (count_particle g ps) [0..<n] (replicate m 0) = Inr counts1"
    and l1: "length counts1 = m" and v1: "\<forall>c<m. counts1 ! c = int (tot c)"
    by (auto simp: tot_def)
  have counts1: "counts1 = map (\<lambda>c. int (tot c)) [0..<m]"
    using l1 v1 by (intro nth_equalityI) auto
  have pre: "(\<Sum>j<c. counts1 ! j) = int (\<Sum>j<c. tot j)" if "c \<le> m" for c
  proof -
    have "(\<Sum>j<c. counts1 ! j) = (\<Sum>j<c. int (tot j))"
      using that v1 by (intro sum.cong) auto
    then show ?thesis by simp
  qed
  let ?starts1 = "map (\<lambda>c. if 0 < tot c then int (\<Sum>j<c. tot j) else - 1) [0..<m]"
  have "for_loop (\<lambda>_. True) (assign_start counts1) [0..<m] (replicate m (- 1), 0) =
          Inr (map (\<lambda>c. if c < m \<and> counts1 ! c > 0 then (\<Sum>j<c. counts1 ! j)
                        else replicate m (- 1) ! c) [0..<length (replicate m (- 1 :: int))],
               (\<Sum>j<m. counts1 ! j))"
    using l1 v1 by (intro start_loop) auto
  moreover have "map (\<lambda>c. if c < m \<and> counts1 ! c > 0 then (\<Sum>j<c. counts1 ! j)
                        else replicate m (- 1) ! c) [0..<length (replicate m (- 1 :: int))]
                 = ?starts1"
    using v1 pre by (intro nth_equalityI) auto
  ultimately have s1: "for_loop (\<lambda>_. True) (assign_start counts1) [0..<m]
                         (replicate m (- 1), 0) = Inr (?starts1, (\<Sum>j<m. counts1 ! j))"
    by simp
  have m2: "memset_int counts1 0 (total_cells g) = Inr (replicate m 0)"
    using l1 tc by (simp add: memset_int_all m_def)
  have room: "(\<Sum>j<m. tally k [0..<n] j) \<le> length (particle_indices g)"
  proof -
    have "(\<Sum>j<m. tally k [0..<n] j) \<le> n" using tally_sum_le [where m = m and k = k and js = "[0..<n]"] by simp
    also have "\<dots> \<le> nat (num_particles g)" using cap by (simp add: n_def)
    finally show ?thesis using li by simp
  qed
  have "\<exists>ix ct. for_loop (\<lambda>_. True) (place_particle g ps ?starts1) [0..<n]
                     (particle_indices g, replicate m 0) = Inr (ix, ct)
           \<and> length ix = length (particle_indices g) \<and> length ct = m
           \<and> (\<forall>c<m. ct ! c = int (tally k [0..<n] c))
           \<and> (\<forall>c<m. \<forall>j<tally k [0..<n] c.
                  ix ! ((\<Sum>x<c. tally k [0..<n] x) + j)
                    = int (filter (\<lambda>i. k i = int c) [0..<n] ! j))"
    using pc room by (intro place_loop) (auto simp: tot_def)
  then obtain ix ct where
    p3: "for_loop (\<lambda>_. True) (place_particle g ps ?starts1) [0..<n]
           (particle_indices g, replicate m 0) = Inr (ix, ct)"
    and lix: "length ix = length (particle_indices g)" and lct: "length ct = m"
    and cv: "\<forall>c<m. ct ! c = int (tot c)"
    and iv: "\<forall>c<m. \<forall>j<tot c. ix ! ((\<Sum>x<c. tot x) + j)
                = int (filter (\<lambda>i. k i = int c) [0..<n] ! j)"
    by (auto simp: tot_def)
  have ct: "ct = map (\<lambda>c. int (tot c)) [0..<m]"
    using lct cv by (intro nth_equalityI) auto
  have "spatial_grid_update g ps cnt =
          Inr (g\<lparr>particle_indices := ix, cell_starts := ?starts1, cell_counts := ct\<rparr>)"
    using m0 m1 c1 s1 m2 p3
    by (simp add: spatial_grid_update_def n_def [symmetric] m_def [symmetric])
  then show ?thesis
    using lix room iv ct
    unfolding tot_def k_def n_def m_def by auto
qed

lemma same_shape_coords: "same_shape g' g \<Longrightarrow> get_grid_coords g' pos = get_grid_coords g pos"
  by (simp add: same_shape_def get_grid_coords_def cong: sum.case_cong)

lemma same_shape_index: "same_shape g' g \<Longrightarrow> get_cell_index g' gx gy gz = get_cell_index g gx gy gz"
  by (simp add: same_shape_def get_cell_index_def)

lemma same_shape_cell_of: "same_shape g' g \<Longrightarrow> cell_of g' p = cell_of g p"
  by (simp add: cell_of_def same_shape_coords same_shape_index cong: sum.case_cong)


text \<open>\<open>spatial_grid_update\<close> establishes the invariant.\<close>

lemma spatial_grid_update_holds:
  assumes wf: "grid_wf g" and np: "nat cnt \<le> length ps" and cap: "cnt \<le> num_particles g"
    and conv: "\<forall>i<nat cnt. convertible g (position (ps ! i))"
  shows "\<exists>g'. spatial_grid_update g ps cnt = Inr g' \<and> same_shape g' g
              \<and> grid_holds g' ps (nat cnt)"
proof -
  define k where "k = (\<lambda>i. cell_of g (ps ! i))"
  define n where "n = nat cnt"
  define m where "m = nat (total_cells g)"
  define tot where "tot = tally k [0..<n]"
  define S where "S = (\<lambda>c. \<Sum>j<c. tot j)"
  from spatial_grid_update_result [OF assms] obtain ix where
    res: "spatial_grid_update g ps cnt =
            Inr (g\<lparr>particle_indices := ix,
                   cell_starts := map (\<lambda>c. if 0 < tot c then int (S c) else - 1) [0..<m],
                   cell_counts := map (\<lambda>c. int (tot c)) [0..<m]\<rparr>)"
    and lix: "length ix = length (particle_indices g)"
    and room: "S m \<le> length ix"
    and iv: "\<forall>c<m. \<forall>j<tot c. ix ! (S c + j) = int (filter (\<lambda>i. k i = int c) [0..<n] ! j)"
    unfolding k_def n_def m_def tot_def S_def by blast
  let ?g' = "g\<lparr>particle_indices := ix,
                cell_starts := map (\<lambda>c. if 0 < tot c then int (S c) else - 1) [0..<m],
                cell_counts := map (\<lambda>c. int (tot c)) [0..<m]\<rparr>"
  have shape: "same_shape ?g' g" by (simp add: same_shape_def)
  have wf': "grid_wf ?g'" using wf lix by (simp add: grid_wf_def m_def)
  have tot: "tot c = length (filter (\<lambda>i. k i = int c) [0..<n])" for c
    by (simp add: tot_def tally_def)
  have within: "S c + tot c \<le> length ix" if "c < m" for c
  proof -
    have "S c + tot c = S (Suc c)" by (simp add: S_def)
    also have "\<dots> \<le> S m" unfolding S_def using that by (intro prefix_sum_mono) simp
    finally show ?thesis using room by simp
  qed
  have run: "cell_run ?g' c = map int (filter (\<lambda>i. k i = int c) [0..<n])" if c: "c < m" for c
  proof (cases "0 < tot c")
    case False
    then show ?thesis using c tot [of c] by (simp add: cell_run_def)
  next
    case True
    have "take (tot c) (drop (S c) ix) = map int (filter (\<lambda>i. k i = int c) [0..<n])"
    proof (rule nth_equalityI)
      show "length (take (tot c) (drop (S c) ix))
            = length (map int (filter (\<lambda>i. k i = int c) [0..<n]))"
        using within [OF c] tot [of c] by simp
    next
      fix j assume "j < length (take (tot c) (drop (S c) ix))"
      then have j: "j < tot c" by simp
      then have "take (tot c) (drop (S c) ix) ! j = ix ! (S c + j)"
        using within [OF c] by simp
      also have "\<dots> = int (filter (\<lambda>i. k i = int c) [0..<n] ! j)" using iv c j by simp
      finally show "take (tot c) (drop (S c) ix) ! j
                    = map int (filter (\<lambda>i. k i = int c) [0..<n]) ! j"
        using j tot [of c] by simp
    qed
    then show ?thesis using c True by (simp add: cell_run_def)
  qed
  have k': "cell_of ?g' p = cell_of g p" for p
    using shape by (rule same_shape_cell_of)
  have "grid_holds ?g' ps n"
    unfolding grid_holds_def
  proof (intro conjI allI impI)
    show "grid_wf ?g'" by (rule wf')
  next
    fix c assume "c < nat (total_cells ?g')"
    then have c: "c < m" by (simp add: m_def)
    show "cell_counts ?g' ! c
          = int (length (filter (\<lambda>i. cell_of ?g' (ps ! i) = int c) [0..<n]))"
      using c tot [of c] by (simp add: k' k_def)
    show "(cell_starts ?g' ! c < 0) = (cell_counts ?g' ! c = 0)"
      using c by simp
    show "nat (cell_starts ?g' ! c) + nat (cell_counts ?g' ! c) \<le> length (particle_indices ?g')"
      using c within [OF c] by simp
    show "cell_run ?g' c = map int (filter (\<lambda>i. cell_of ?g' (ps ! i) = int c) [0..<n])"
      using run [OF c] by (simp only: k' k_def)
  qed
  then show ?thesis using res shape by (simp add: n_def)
qed


lemma grid_holds_member:
  assumes "grid_holds g ps n" and "c < nat (total_cells g)"
  shows "(j \<in> set (cell_run g c)) = (\<exists>i<n. j = int i \<and> cell_of g (ps ! i) = int c)"
    and "distinct (cell_run g c)"
  using assms by (auto simp: grid_holds_def distinct_map inj_on_def)

lemma scenario_create: "spatial_grid_create 100 100 100 50 5 (\<lambda>_. 7) = Inr scenario_grid"
  by code_simp







section \<open>The query scans its candidates in order, up to the capacity\<close>

lemma take_take_append: "take n (take n xs @ ys) = take n (xs @ ys)"
  by (cases "n \<le> length xs") (simp_all add: min_def)

lemma accepted_length:
  assumes "buffer_ok (nat MAX_NEIGHBORS) st"
  shows "length (accepted st) = nat (snd st)" and "nat (snd st) \<le> nat MAX_NEIGHBORS"
proof -
  show le: "nat (snd st) \<le> nat MAX_NEIGHBORS"
    using assms by (simp add: buffer_ok_def nat_mono)
  then show "length (accepted st) = nat (snd st)"
    using assms by (simp add: accepted_def buffer_ok_def)
qed

lemma accepted_take:
  assumes "buffer_ok (nat MAX_NEIGHBORS) st"
  shows "take (nat MAX_NEIGHBORS) (accepted st) = accepted st"
  using accepted_length [OF assms] by simp

lemma accepted_full:
  assumes "buffer_ok (nat MAX_NEIGHBORS) st" and "\<not> room_left st"
  shows "take (nat MAX_NEIGHBORS) (accepted st @ ys) = accepted st"
proof -
  have "snd st = MAX_NEIGHBORS"
    using assms by (simp add: buffer_ok_def room_left_def)
  then have "length (accepted st) = nat MAX_NEIGHBORS"
    using accepted_length(1) [OF assms(1)] by simp
  then show ?thesis by simp
qed

text \<open>
  A loop with the capacity condition whose body appends \<open>F x\<close> to the accepted entries,
  cut at the capacity, appends the concatenation of all \<open>F x\<close>, cut at the capacity.
\<close>

lemma capped_loop:
  assumes "buffer_ok (nat MAX_NEIGHBORS) st"
    and "\<And>x s. x \<in> set xs \<Longrightarrow> buffer_ok (nat MAX_NEIGHBORS) s \<Longrightarrow> room_left s
           \<Longrightarrow> \<exists>s'. body x s = Inr s' \<and> buffer_ok (nat MAX_NEIGHBORS) s'
                    \<and> accepted s' = take (nat MAX_NEIGHBORS) (accepted s @ F x)"
  shows "\<exists>s'. for_loop room_left body xs st = Inr s' \<and> buffer_ok (nat MAX_NEIGHBORS) s'
              \<and> accepted s' = take (nat MAX_NEIGHBORS) (accepted st @ concat (map F xs))"
  using assms
proof (induction xs arbitrary: st)
  case Nil
  then show ?case by (simp add: accepted_take)
next
  case (Cons x xs)
  show ?case
  proof (cases "room_left st")
    case False
    have "take (nat MAX_NEIGHBORS) (accepted st @ concat (map F (x # xs))) = accepted st"
      using Cons.prems(1) False by (rule accepted_full)
    then show ?thesis using False Cons.prems(1) by (simp del: take_append)
  next
    case True
    from Cons.prems(2) [of x st] Cons.prems(1) True obtain s1 where
      b: "body x st = Inr s1" and ok1: "buffer_ok (nat MAX_NEIGHBORS) s1"
      and a1: "accepted s1 = take (nat MAX_NEIGHBORS) (accepted st @ F x)"
      by auto
    from Cons.IH [OF ok1] Cons.prems(2) obtain s' where
      l: "for_loop room_left body xs s1 = Inr s'" and ok': "buffer_ok (nat MAX_NEIGHBORS) s'"
      and a': "accepted s' = take (nat MAX_NEIGHBORS) (accepted s1 @ concat (map F xs))"
      by auto
    have "accepted s' = take (nat MAX_NEIGHBORS)
                          (take (nat MAX_NEIGHBORS) (accepted st @ F x) @ concat (map F xs))"
      using a' a1 by (simp only:)
    also have "\<dots> = take (nat MAX_NEIGHBORS) ((accepted st @ F x) @ concat (map F xs))"
      by (rule take_take_append)
    finally have "accepted s' = take (nat MAX_NEIGHBORS)
                                  (accepted st @ concat (map F (x # xs)))"
      by (simp del: take_append)
    then show ?thesis using True b l ok' by (simp del: take_append)
  qed
qed


lemma concat_map_if_filter:
  "concat (map (\<lambda>x. if P (f x) then [f x] else []) xs) = filter P (map f xs)"
  by (induction xs) simp_all

lemma upto_block: "[- 1..1] = [- 1, 0, 1 :: int]"
  by (simp add: upto.simps)

lemma grid_holds_cell:
  assumes "grid_holds g ps n" and "c < nat (total_cells g)"
  shows "cell_counts g ! c = int (length (cell_run g c))"
    and "(cell_starts g ! c < 0) = (cell_counts g ! c = 0)"
    and "nat (cell_starts g ! c) + nat (cell_counts g ! c) \<le> length (particle_indices g)"
    and "cell_run g c = map int (filter (\<lambda>i. cell_of g (ps ! i) = int c) [0..<n])"
proof -
  from assms have a: "cell_counts g ! c
        = int (length (filter (\<lambda>i. cell_of g (ps ! i) = int c) [0..<n]))"
    and b: "(cell_starts g ! c < 0) = (cell_counts g ! c = 0)"
    and d: "nat (cell_starts g ! c) + nat (cell_counts g ! c) \<le> length (particle_indices g)"
    and e: "cell_run g c = map int (filter (\<lambda>i. cell_of g (ps ! i) = int c) [0..<n])"
    unfolding grid_holds_def by blast+
  show "cell_counts g ! c = int (length (cell_run g c))" using a e by simp
  show "(cell_starts g ! c < 0) = (cell_counts g ! c = 0)" by (rule b)
  show "nat (cell_starts g ! c) + nat (cell_counts g ! c) \<le> length (particle_indices g)"
    by (rule d)
  show "cell_run g c = map int (filter (\<lambda>i. cell_of g (ps ! i) = int c) [0..<n])" by (rule e)
qed



section \<open>The candidates of a query\<close>

text \<open>Different cells of the grid have different indices.\<close>

lemma get_cell_index_inj:
  assumes "0 \<le> get_cell_index g gx gy gz"
    and "get_cell_index g gx gy gz = get_cell_index g gx' gy' gz'"
  shows "gx = gx' \<and> gy = gy' \<and> gz = gz'"
proof -
  define w where "w = grid_width g"
  define h where "h = grid_height g"
  have r: "0 \<le> gx" "gx < w" "0 \<le> gy" "gy < h"
    and v: "get_cell_index g gx gy gz = gx + (gy + gz * h) * w"
    using assms(1) by (auto simp: get_cell_index_def w_def h_def algebra_simps split: if_splits)
  have "0 \<le> get_cell_index g gx' gy' gz'" using assms by simp
  then have r': "0 \<le> gx'" "gx' < w" "0 \<le> gy'" "gy' < h"
    and v': "get_cell_index g gx' gy' gz' = gx' + (gy' + gz' * h) * w"
    by (auto simp: get_cell_index_def w_def h_def algebra_simps split: if_splits)
  have eq: "gx + (gy + gz * h) * w = gx' + (gy' + gz' * h) * w"
    using assms(2) v v' by simp
  have "(gx + (gy + gz * h) * w) mod w = gx" "(gx' + (gy' + gz' * h) * w) mod w = gx'"
    using r r' by simp_all
  then have x: "gx = gx'" using eq by simp
  have "(gx + (gy + gz * h) * w) div w = gy + gz * h"
    "(gx' + (gy' + gz' * h) * w) div w = gy' + gz' * h"
    using r r' by simp_all
  then have eq2: "gy + gz * h = gy' + gz' * h" using eq by simp
  have "(gy + gz * h) mod h = gy" "(gy' + gz' * h) mod h = gy'"
    using r r' by simp_all
  then have y: "gy = gy'" using eq2 by simp
  have "(gy + gz * h) div h = gz" "(gy' + gz' * h) div h = gz'"
    using r r' by simp_all
  then have "gz = gz'" using eq2 by simp
  then show ?thesis using x y by simp
qed

text \<open>The candidates of a cell are the particles that map to the cell.\<close>

lemma cell_candidates_member:
  assumes "grid_holds g ps n"
  shows "(j \<in> set (cell_candidates g gx gy gz))
         = (\<exists>i<n. j = int i \<and> 0 \<le> cell_of g (ps ! i)
                 \<and> cell_of g (ps ! i) = get_cell_index g gx gy gz)"
proof (cases "get_cell_index g gx gy gz < 0")
  case True
  then show ?thesis by (auto simp: cell_candidates_def)
next
  case False
  have wf: "grid_wf g" using assms by (simp add: grid_holds_def)
  have c: "nat (get_cell_index g gx gy gz) < nat (total_cells g)"
    using get_cell_index_range [OF wf, of gx gy gz] False by simp
  show ?thesis
    using False grid_holds_cell(4) [OF assms c]
    by (auto simp: cell_candidates_def)
qed

lemma cell_candidates_distinct:
  assumes "grid_holds g ps n"
  shows "distinct (cell_candidates g gx gy gz)"
proof (cases "get_cell_index g gx gy gz < 0")
  case True
  then show ?thesis by (simp add: cell_candidates_def)
next
  case False
  have wf: "grid_wf g" using assms by (simp add: grid_holds_def)
  have c: "nat (get_cell_index g gx gy gz) < nat (total_cells g)"
    using get_cell_index_range [OF wf, of gx gy gz] False by simp
  show ?thesis
    using False grid_holds_cell(4) [OF assms c]
    by (simp add: cell_candidates_def distinct_map inj_on_def)
qed

text \<open>A concatenation of distinct lists that share no element is distinct.\<close>

lemma distinct_concat_map:
  assumes "distinct ts" and "\<And>t. t \<in> set ts \<Longrightarrow> distinct (F t)"
    and "\<And>t t' j. t \<in> set ts \<Longrightarrow> t' \<in> set ts \<Longrightarrow> j \<in> set (F t) \<Longrightarrow> j \<in> set (F t')
           \<Longrightarrow> t = t'"
  shows "distinct (concat (map F ts))"
  using assms
proof (induction ts)
  case Nil
  then show ?case by simp
next
  case (Cons t ts)
  have "distinct (concat (map F ts))"
    using Cons by (intro Cons.IH) auto
  moreover have "distinct (F t)" using Cons.prems(2) by simp
  moreover have "set (F t) \<inter> set (concat (map F ts)) = {}"
  proof (rule ccontr)
    assume "set (F t) \<inter> set (concat (map F ts)) \<noteq> {}"
    then obtain j t' where "j \<in> set (F t)" and "t' \<in> set ts" and "j \<in> set (F t')"
      by auto
    then have "t = t'" using Cons.prems(3) [of t t' j] by simp
    then show False using \<open>t' \<in> set ts\<close> Cons.prems(1) by simp
  qed
  ultimately show ?case by simp
qed

lemma in_concat_map: "(j \<in> set (concat (map F xs))) = (\<exists>x\<in>set xs. j \<in> set (F x))"
  by auto

lemma candidates_member:
  assumes "grid_holds g ps n"
  shows "(j \<in> set (candidates g cx cy cz))
         = (\<exists>i<n. j = int i \<and> 0 \<le> cell_of g (ps ! i)
              \<and> (\<exists>dx\<in>{- 1, 0, 1}. \<exists>dy\<in>{- 1, 0, 1}. \<exists>dz\<in>{- 1, 0, 1}.
                    cell_of g (ps ! i) = get_cell_index g (cx + dx) (cy + dy) (cz + dz)))"
proof -
  define D where "D = set [- 1, 0, 1 :: int]"
  have D: "D = {- 1, 0, 1}" by (simp add: D_def)
  have "(j \<in> set (candidates g cx cy cz))
        = (\<exists>dz\<in>D. \<exists>dy\<in>D. \<exists>dx\<in>D.
             j \<in> set (cell_candidates g (cx + dx) (cy + dy) (cz + dz)))"
    unfolding candidates_def D_def by (simp only: in_concat_map)
  also have "\<dots> = (\<exists>dz\<in>D. \<exists>dy\<in>D. \<exists>dx\<in>D. \<exists>i<n. j = int i \<and> 0 \<le> cell_of g (ps ! i)
                 \<and> cell_of g (ps ! i) = get_cell_index g (cx + dx) (cy + dy) (cz + dz))"
    by (simp only: cell_candidates_member [OF assms])
  also have "\<dots> = (\<exists>i<n. j = int i \<and> 0 \<le> cell_of g (ps ! i)
              \<and> (\<exists>dx\<in>D. \<exists>dy\<in>D. \<exists>dz\<in>D.
                    cell_of g (ps ! i) = get_cell_index g (cx + dx) (cy + dy) (cz + dz)))"
    by blast
  finally show ?thesis by (simp only: D)
qed

lemma candidates_distinct:
  assumes holds: "grid_holds g ps n"
  shows "distinct (candidates g cx cy cz)"
proof -
  have L: "distinct [- 1, 0, 1 :: int]" by simp
  have same: "gx = gx' \<and> gy = gy' \<and> gz = gz'"
    if "j \<in> set (cell_candidates g gx gy gz)" and "j \<in> set (cell_candidates g gx' gy' gz')"
    for j gx gy gz gx' gy' gz'
  proof -
    from that obtain i i' where "j = int i" "0 \<le> cell_of g (ps ! i)"
      "cell_of g (ps ! i) = get_cell_index g gx gy gz"
      "j = int i'" "cell_of g (ps ! i') = get_cell_index g gx' gy' gz'"
      unfolding cell_candidates_member [OF holds] by blast
    then have "0 \<le> get_cell_index g gx gy gz"
      and "get_cell_index g gx gy gz = get_cell_index g gx' gy' gz'"
      by auto
    then show ?thesis by (rule get_cell_index_inj)
  qed
  have row: "distinct (concat (map (\<lambda>dx. cell_candidates g (cx + dx) gy gz) [- 1, 0, 1]))"
    for gy gz
    using L
  proof (rule distinct_concat_map)
    fix t show "distinct (cell_candidates g (cx + t) gy gz)"
      by (rule cell_candidates_distinct [OF holds])
  next
    fix t t' j
    assume a: "j \<in> set (cell_candidates g (cx + t) gy gz)"
      and b: "j \<in> set (cell_candidates g (cx + t') gy gz)"
    from same [OF a b] show "t = t'" by simp
  qed
  have plane: "distinct (concat (map (\<lambda>dy.
                 concat (map (\<lambda>dx. cell_candidates g (cx + dx) (cy + dy) gz) [- 1, 0, 1]))
                 [- 1, 0, 1]))" for gz
    using L
  proof (rule distinct_concat_map)
    fix t show "distinct (concat (map (\<lambda>dx. cell_candidates g (cx + dx) (cy + t) gz)
                                      [- 1, 0, 1]))"
      by (rule row)
  next
    fix t t' j
    assume "j \<in> set (concat (map (\<lambda>dx. cell_candidates g (cx + dx) (cy + t) gz) [- 1, 0, 1]))"
      and "j \<in> set (concat (map (\<lambda>dx. cell_candidates g (cx + dx) (cy + t') gz) [- 1, 0, 1]))"
    then obtain a b where a: "j \<in> set (cell_candidates g (cx + a) (cy + t) gz)"
      and b: "j \<in> set (cell_candidates g (cx + b) (cy + t') gz)"
      unfolding in_concat_map by blast
    from same [OF a b] show "t = t'" by simp
  qed
  show ?thesis
    unfolding candidates_def
    using L
  proof (rule distinct_concat_map)
    fix t show "distinct (concat (map (\<lambda>dy.
                 concat (map (\<lambda>dx. cell_candidates g (cx + dx) (cy + dy) (cz + t)) [- 1, 0, 1]))
                 [- 1, 0, 1]))"
      by (rule plane)
  next
    fix t t' j
    assume "j \<in> set (concat (map (\<lambda>dy.
                 concat (map (\<lambda>dx. cell_candidates g (cx + dx) (cy + dy) (cz + t)) [- 1, 0, 1]))
                 [- 1, 0, 1]))"
      and "j \<in> set (concat (map (\<lambda>dy.
                 concat (map (\<lambda>dx. cell_candidates g (cx + dx) (cy + dy) (cz + t')) [- 1, 0, 1]))
                 [- 1, 0, 1]))"
    then obtain a b a' b' where a: "j \<in> set (cell_candidates g (cx + a) (cy + b) (cz + t))"
      and b: "j \<in> set (cell_candidates g (cx + a') (cy + b') (cz + t'))"
      unfolding in_concat_map by blast
    from same [OF a b] show "t = t'" by simp
  qed
qed

section \<open>A particle in range lies in the scanned block\<close>







section \<open>The query against the brute-force scan\<close>





section \<open>Evaluation of the frame scenario\<close>

lemma upt_3: "[0..<3] = [0, 1, 2]"
  by (simp add: upt_rec)

lemma tiny_flock:
  "i \<in> {0, 1, 2} \<Longrightarrow>
   particle_flock_optimized (still_at 50 50 50) i
     [still_at 50 50 50, still_at 50 50 50, still_at 50 50 50]
     [0, 1, 2, 0, 0, 0, 0, 0, 0, 0] 3
     \<lparr>xc = 50, yc = 50, zc = 50\<rparr> \<lparr>xc = 50, yc = 50, zc = 50\<rparr> 50 sw
   = Inr (still_at 50 50 50)"
  by (auto simp: particle_flock_optimized_def flock_neighbor_def array_read_def upt_3
        still_at_def vec3_dist_sq_inline_def min_dist_sq_def vec3_create_def particle_seek_def
        vec3_sub_new_def vec3_set_mag_def vec3_normalize_def vec3_mag_def vec3_mult_def
        vec3_limit_def vec3_add_def Let_def)

lemma tiny_move:
  "particle_wrap (particle_update (still_at 50 50 50)) 100 100 100 = still_at 50 50 50"
  by (simp add: particle_wrap_def particle_update_def wrap_axis_def still_at_def
        vec3_add_def vec3_limit_def vec3_mag_def vec3_mult_def Let_def)

lemma tiny_query:
  "spatial_grid_query_neighbors (sgrid (tiny_sim f t cache))
     [still_at 50 50 50, still_at 50 50 50, still_at 50 50 50]
     \<lparr>xc = 50, yc = 50, zc = 50\<rparr> 50 [0, 1, 2, 0, 0, 0, 0, 0, 0, 0]
   = Inr ([0, 1, 2, 0, 0, 0, 0, 0, 0, 0], 3)"
  unfolding tiny_sim_def Sim.simps by code_simp

section \<open>The agent loop\<close>

text \<open>A refresh changes the cache entry of its agent only, and stamps it with the frame.\<close>

lemma refresh_cache_frame:
  assumes "refresh_cache cfg i s = Inr s'"
  shows "particles s' = particles s" and "current_frame s' = current_frame s"
    and "length (neighbor_cache s') = length (neighbor_cache s)"
    and "i < length (neighbor_cache s)"
    and "j \<noteq> i \<Longrightarrow> neighbor_cache s' ! j = neighbor_cache s ! j"
    and "frame_cached (neighbor_cache s' ! i) = current_frame s"
  using assms
  by (auto simp: refresh_cache_def array_read_def array_write_def
        split: sum.splits prod.splits if_splits)

text \<open>One agent: only its own particle and cache entry change; the cache entry is
  refreshed exactly when the stagger test or the cold-start test holds.\<close>

lemma agent_step_frame:
  assumes "agent_step cfg sw i s = Inr s'"
  shows "length (particles s') = length (particles s)"
    and "length (neighbor_cache s') = length (neighbor_cache s)"
    and "current_frame s' = current_frame s"
    and "j \<noteq> i \<Longrightarrow> particles s' ! j = particles s ! j"
    and "j \<noteq> i \<Longrightarrow> neighbor_cache s' ! j = neighbor_cache s ! j"
    and "current_frame s mod CACHE_NEIGHBORS_FRAMES cfg = int i mod CACHE_NEIGHBORS_FRAMES cfg
         \<or> (current_frame s < CACHE_NEIGHBORS_FRAMES cfg \<and> count (neighbor_cache s ! i) = 0)
         \<Longrightarrow> frame_cached (neighbor_cache s' ! i) = current_frame s"
    and "\<not> (current_frame s mod CACHE_NEIGHBORS_FRAMES cfg = int i mod CACHE_NEIGHBORS_FRAMES cfg
            \<or> (current_frame s < CACHE_NEIGHBORS_FRAMES cfg \<and> count (neighbor_cache s ! i) = 0))
         \<Longrightarrow> neighbor_cache s' ! i = neighbor_cache s ! i"
proof -
  from assms obtain c where c: "array_read (neighbor_cache s) (int i) = Inr c"
    by (auto simp: agent_step_def split: sum.splits)
  then have ci: "c = neighbor_cache s ! i" and il: "i < length (neighbor_cache s)"
    by (auto simp: array_read_def split: if_splits)
  define upd where "upd = (current_frame s mod CACHE_NEIGHBORS_FRAMES cfg
                             = int i mod CACHE_NEIGHBORS_FRAMES cfg
                           \<or> (current_frame s < CACHE_NEIGHBORS_FRAMES cfg \<and> count c = 0))"
  from assms c obtain s1 ps' where
    s1: "(if upd then refresh_cache cfg i s else Inr s) = Inr s1"
    and w: "array_write (particles s1) (int i) ps' = Inr (particles s')"
    and s': "s' = s1\<lparr>particles := particles s'\<rparr>"
    by (auto simp: agent_step_def Let_def upd_def split: sum.splits)
  have a: "particles s1 = particles s" "current_frame s1 = current_frame s"
    "length (neighbor_cache s1) = length (neighbor_cache s)"
    "\<And>j. j \<noteq> i \<Longrightarrow> neighbor_cache s1 ! j = neighbor_cache s ! j"
    "upd \<Longrightarrow> frame_cached (neighbor_cache s1 ! i) = current_frame s"
    "\<not> upd \<Longrightarrow> neighbor_cache s1 ! i = neighbor_cache s ! i"
    using s1 refresh_cache_frame [of cfg i s s1] by (auto split: if_splits)
  have nc: "neighbor_cache s' = neighbor_cache s1" and cf: "current_frame s' = current_frame s1"
    using s' by (metis Sim.select_convs Sim.surjective Sim.update_convs(1))+
  have pw: "particles s' = (particles s1)[i := ps']"
    using w by (auto simp: array_write_def split: if_splits)
  show "length (particles s') = length (particles s)" using pw a by simp
  show "length (neighbor_cache s') = length (neighbor_cache s)" using nc a by simp
  show "current_frame s' = current_frame s" using cf a by simp
  show "j \<noteq> i \<Longrightarrow> particles s' ! j = particles s ! j" using pw a by simp
  show "j \<noteq> i \<Longrightarrow> neighbor_cache s' ! j = neighbor_cache s ! j" using nc a by simp
  show "current_frame s mod CACHE_NEIGHBORS_FRAMES cfg = int i mod CACHE_NEIGHBORS_FRAMES cfg
         \<or> (current_frame s < CACHE_NEIGHBORS_FRAMES cfg \<and> count (neighbor_cache s ! i) = 0)
         \<Longrightarrow> frame_cached (neighbor_cache s' ! i) = current_frame s"
    using nc a(5) by (simp add: upd_def ci)
  show "\<not> (current_frame s mod CACHE_NEIGHBORS_FRAMES cfg = int i mod CACHE_NEIGHBORS_FRAMES cfg
            \<or> (current_frame s < CACHE_NEIGHBORS_FRAMES cfg \<and> count (neighbor_cache s ! i) = 0))
         \<Longrightarrow> neighbor_cache s' ! i = neighbor_cache s ! i"
    using nc a(6) by (simp add: upd_def ci)
qed

text \<open>Agents that the loop does not visit keep their particle and their cache entry.\<close>

lemma agent_loop_untouched:
  assumes "agent_loop cfg el sw js (s, u) = Inr (s', u')" and "j \<notin> set js"
  shows "particles s' ! j = particles s ! j \<and> neighbor_cache s' ! j = neighbor_cache s ! j
         \<and> current_frame s' = current_frame s"
  using assms
proof (induction js arbitrary: s u)
  case Nil
  then show ?case by simp
next
  case (Cons i js)
  show ?case
  proof (cases "el i > MAX_FRAME_TIME_MS cfg \<and> u > NUM_PARTICLES cfg div 2")
    case True
    then show ?thesis using Cons.prems by simp
  next
    case False
    with Cons.prems obtain s1 where
      st: "agent_step cfg sw i s = Inr s1"
      and rest: "agent_loop cfg el sw js (s1, u + 1) = Inr (s', u')"
      by (auto split: sum.splits)
    have "j \<noteq> i" and "j \<notin> set js" using Cons.prems(2) by auto
    then show ?thesis
      using Cons.IH [OF rest] agent_step_frame(3,4,5) [OF st] by simp
  qed
qed

text \<open>
  The loop processes a prefix of its agents, none of which met the exit test, and then
  either is at the end or meets the exit test. Its result is the result of the loop
  without exit on that prefix, and the counter has grown by the length of the prefix.
\<close>

lemma agent_loop_prefix:
  assumes "agent_loop cfg el sw js (s, u) = Inr (s', u')"
  shows "\<exists>pre post. js = pre @ post \<and> u' = u + int (length pre)
           \<and> agent_loop cfg (within_budget cfg) sw pre (s, u) = Inr (s', u')
           \<and> (\<forall>k<length pre. \<not> (el (pre ! k) > MAX_FRAME_TIME_MS cfg
                                    \<and> u + int k > NUM_PARTICLES cfg div 2))
           \<and> (post = [] \<or> (el (hd post) > MAX_FRAME_TIME_MS cfg
                              \<and> u' > NUM_PARTICLES cfg div 2))"
  using assms
proof (induction js arbitrary: s u)
  case Nil
  then show ?case by simp
next
  case (Cons i js)
  show ?case
  proof (cases "el i > MAX_FRAME_TIME_MS cfg \<and> u > NUM_PARTICLES cfg div 2")
    case True
    then have "s' = s" "u' = u" using Cons.prems by simp_all
    then have "i # js = [] @ (i # js) \<and> u' = u + int (length ([] :: nat list))
           \<and> agent_loop cfg (within_budget cfg) sw [] (s, u) = Inr (s', u')
           \<and> (\<forall>k<length ([] :: nat list). \<not> (el ([] ! k) > MAX_FRAME_TIME_MS cfg
                                    \<and> u + int k > NUM_PARTICLES cfg div 2))
           \<and> (i # js = [] \<or> (el (hd (i # js)) > MAX_FRAME_TIME_MS cfg
                              \<and> u' > NUM_PARTICLES cfg div 2))"
      using True by simp
    then show ?thesis by blast
  next
    case False
    with Cons.prems obtain s1 where
      st: "agent_step cfg sw i s = Inr s1"
      and rest: "agent_loop cfg el sw js (s1, u + 1) = Inr (s', u')"
      by (auto split: sum.splits)
    from Cons.IH [OF rest] obtain pre post where
      js: "js = pre @ post" and u': "u' = u + 1 + int (length pre)"
      and run: "agent_loop cfg (within_budget cfg) sw pre (s1, u + 1) = Inr (s', u')"
      and no: "\<forall>k<length pre. \<not> (el (pre ! k) > MAX_FRAME_TIME_MS cfg
                                    \<and> u + 1 + int k > NUM_PARTICLES cfg div 2)"
      and fin: "post = [] \<or> (el (hd post) > MAX_FRAME_TIME_MS cfg
                              \<and> u' > NUM_PARTICLES cfg div 2)"
      by blast
    have no': "\<not> (el ((i # pre) ! k) > MAX_FRAME_TIME_MS cfg
                  \<and> u + int k > NUM_PARTICLES cfg div 2)" if "k < length (i # pre)" for k
    proof (cases k)
      case 0
      then show ?thesis using False by simp
    next
      case (Suc k')
      then show ?thesis using no that by (auto simp: algebra_simps)
    qed
    have "i # js = (i # pre) @ post \<and> u' = u + int (length (i # pre))
           \<and> agent_loop cfg (within_budget cfg) sw (i # pre) (s, u) = Inr (s', u')
           \<and> (\<forall>k<length (i # pre). \<not> (el ((i # pre) ! k) > MAX_FRAME_TIME_MS cfg
                                    \<and> u + int k > NUM_PARTICLES cfg div 2))
           \<and> (post = [] \<or> (el (hd post) > MAX_FRAME_TIME_MS cfg
                              \<and> u' > NUM_PARTICLES cfg div 2))"
      using js u' run no' fin st by (simp add: within_budget_def)
    then show ?thesis by blast
  qed
qed

text \<open>The same for the loop over all agents: the prefix is \<open>[0..<u']\<close>.\<close>

lemma agent_loop_processed:
  assumes "agent_loop cfg el sw [0..<n] (s, 0) = Inr (s', u')"
  shows "0 \<le> u'" and "nat u' \<le> n"
    and "agent_loop cfg (within_budget cfg) sw [0..<nat u'] (s, 0) = Inr (s', u')"
    and "\<forall>k<nat u'. \<not> (el k > MAX_FRAME_TIME_MS cfg \<and> int k > NUM_PARTICLES cfg div 2)"
    and "nat u' = n \<or> (el (nat u') > MAX_FRAME_TIME_MS cfg \<and> u' > NUM_PARTICLES cfg div 2)"
proof -
  from agent_loop_prefix [OF assms] obtain pre post where
    js: "[0..<n] = pre @ post" and u': "u' = int (length pre)"
    and run: "agent_loop cfg (within_budget cfg) sw pre (s, 0) = Inr (s', u')"
    and no: "\<forall>k<length pre. \<not> (el (pre ! k) > MAX_FRAME_TIME_MS cfg
                                    \<and> int k > NUM_PARTICLES cfg div 2)"
    and fin: "post = [] \<or> (el (hd post) > MAX_FRAME_TIME_MS cfg
                              \<and> u' > NUM_PARTICLES cfg div 2)"
    by auto
  have len: "length pre \<le> n"
    using arg_cong [OF js, of length] by simp
  have pre: "pre = [0..<length pre]"
  proof -
    have "pre = take (length pre) (pre @ post)" by simp
    also have "\<dots> = take (length pre) [0..<n]" by (simp only: js)
    also have "\<dots> = [0..<length pre]" using len by (simp add: take_upt)
    finally show ?thesis .
  qed
  have post: "post = [length pre..<n]"
  proof -
    have "post = drop (length pre) (pre @ post)" by simp
    also have "\<dots> = drop (length pre) [0..<n]" by (simp only: js)
    also have "\<dots> = [length pre..<n]" by (simp add: drop_upt)
    finally show ?thesis .
  qed
  show "0 \<le> u'" using u' by simp
  show "nat u' \<le> n" using u' len by simp
  show "agent_loop cfg (within_budget cfg) sw [0..<nat u'] (s, 0) = Inr (s', u')"
    using run pre u' by simp
  show "\<forall>k<nat u'. \<not> (el k > MAX_FRAME_TIME_MS cfg \<and> int k > NUM_PARTICLES cfg div 2)"
  proof (intro allI impI)
    fix k assume "k < nat u'"
    then have k: "k < length pre" using u' by simp
    then have "pre ! k = k" using pre by (metis add_0 nth_upt)
    then show "\<not> (el k > MAX_FRAME_TIME_MS cfg \<and> int k > NUM_PARTICLES cfg div 2)"
      using no k by auto
  qed
  show "nat u' = n \<or> (el (nat u') > MAX_FRAME_TIME_MS cfg \<and> u' > NUM_PARTICLES cfg div 2)"
  proof (cases "post = []")
    case True
    then have "length [0..<n] = length pre" using js by simp
    then have "length pre = n" by simp
    then show ?thesis using u' by simp
  next
    case False
    then have "length pre < n" using post by simp
    then have "hd post = length pre" using post by (simp add: upt_rec)
    then show ?thesis using fin False u' by simp
  qed
qed

lemma tiny_refresh:
  assumes "i < 3" and "length cache = 3"
    and "neighbors (cache ! i) = [0, 1, 2, 0, 0, 0, 0, 0, 0, 0]"
  shows "refresh_cache tiny_config i (tiny_sim f t cache)
         = Inr (tiny_sim f t (cache[i := \<lparr>neighbors = [0, 1, 2, 0, 0, 0, 0, 0, 0, 0], count = 3,
                                        frame_cached = f\<rparr>]))"
proof -
  have p: "array_read (particles (tiny_sim f t cache)) (int i) = Inr (still_at 50 50 50)"
    using assms(1) by (auto simp: tiny_sim_def array_read_def nth_Cons' less_Suc_eq numeral_3_eq_3)
  have q: "spatial_grid_query_neighbors (sgrid (tiny_sim f t cache)) (particles (tiny_sim f t cache))
             (position (still_at 50 50 50)) (PERCEPTION_RADIUS tiny_config)
             (neighbor_buffer (tiny_sim f t cache))
           = Inr ([0, 1, 2, 0, 0, 0, 0, 0, 0, 0], 3)"
    using tiny_query [of f t cache] by (simp add: tiny_sim_def tiny_config_def still_at_def)
  have c: "array_read (neighbor_cache (tiny_sim f t cache)) (int i) = Inr (cache ! i)"
    using assms(1,2) by (simp add: tiny_sim_def array_read_def)
  have copy: "for_loop (\<lambda>_. True)
             (\<lambda>j nb. case array_read [0, 1, 2, 0, 0, 0, 0, 0, 0, 0 :: int] (int j) of
                        Inl e \<Rightarrow> Inl e
                      | Inr v \<Rightarrow> array_write nb (int j) v)
             [0..<nat (min 3 MAX_NEIGHBORS)] [0, 1, 2, 0, 0, 0, 0, 0, 0, 0]
           = Inr [0, 1, 2, 0, 0, 0, 0, 0, 0, 0]"
    by (simp add: MAX_NEIGHBORS_def upt_3 array_read_def array_write_def)
  have w: "array_write (neighbor_cache (tiny_sim f t cache)) (int i) v
           = Inr ((neighbor_cache (tiny_sim f t cache))[i := v])" for v
    using assms(1,2) by (simp add: tiny_sim_def array_write_def)
  show ?thesis
    unfolding refresh_cache_def p q c sum.case prod.case assms(3) copy w
    by (simp add: tiny_sim_def)
qed

lemma tiny_step:
  assumes "i < 3" and "length cache = 3"
    and "neighbors (cache ! i) = [0, 1, 2, 0, 0, 0, 0, 0, 0, 0]" and "count (cache ! i) = 3"
    and "2 \<le> f"
  shows "agent_step tiny_config sw i (tiny_sim f t cache)
         = Inr (tiny_sim f t (if f mod 2 = int i mod 2
                            then cache[i := \<lparr>neighbors = [0, 1, 2, 0, 0, 0, 0, 0, 0, 0],
                                            count = 3, frame_cached = f\<rparr>]
                            else cache))"
proof -
  let ?c' = "if f mod 2 = int i mod 2
             then cache[i := \<lparr>neighbors = [0, 1, 2, 0, 0, 0, 0, 0, 0, 0],
                             count = 3, frame_cached = f\<rparr>]
             else cache"
  have i: "int i \<in> {0, 1, 2}" using assms(1) by auto
  have c: "array_read (neighbor_cache (tiny_sim f t cache)) (int i) = Inr (cache ! i)"
    using assms(1,2) by (simp add: tiny_sim_def array_read_def)
  have r: "(if current_frame (tiny_sim f t cache) mod CACHE_NEIGHBORS_FRAMES tiny_config
                 = int i mod CACHE_NEIGHBORS_FRAMES tiny_config
               \<or> (current_frame (tiny_sim f t cache) < CACHE_NEIGHBORS_FRAMES tiny_config
                  \<and> count (cache ! i) = 0)
            then refresh_cache tiny_config i (tiny_sim f t cache)
            else Inr (tiny_sim f t cache)) = Inr (tiny_sim f t ?c')"
    using assms(4,5) tiny_refresh [OF assms(1-3), of f t]
    by (simp add: tiny_sim_def tiny_config_def)
  have l: "length ?c' = 3" using assms(2) by simp
  have c1: "array_read (neighbor_cache (tiny_sim f t ?c')) (int i) = Inr (?c' ! i)"
    using assms(1) l by (simp add: tiny_sim_def array_read_def)
  have n1: "neighbors (?c' ! i) = [0, 1, 2, 0, 0, 0, 0, 0, 0, 0]" "count (?c' ! i) = 3"
    using assms by auto
  have p: "array_read (particles (tiny_sim f t ?c')) (int i) = Inr (still_at 50 50 50)"
    using assms(1)
    by (auto simp: tiny_sim_def array_read_def nth_Cons' less_Suc_eq numeral_3_eq_3)
  have fl: "particle_flock_optimized (still_at 50 50 50) (int i) (particles (tiny_sim f t ?c'))
              [0, 1, 2, 0, 0, 0, 0, 0, 0, 0] 3 (leader1 (tiny_sim f t ?c'))
              (leader2 (tiny_sim f t ?c')) (PERCEPTION_RADIUS tiny_config) sw
            = Inr (still_at 50 50 50)"
    using tiny_flock [OF i, of sw] by (simp add: tiny_sim_def tiny_config_def)
  have mv: "particle_wrap (particle_update (still_at 50 50 50)) (WIDTH tiny_config)
              (HEIGHT tiny_config) (DEPTH tiny_config) = still_at 50 50 50"
    using tiny_move by (simp add: tiny_config_def)
  have w: "array_write (particles (tiny_sim f t ?c')) (int i) (still_at 50 50 50)
           = Inr (particles (tiny_sim f t ?c'))"
    using assms(1)
    by (auto simp: tiny_sim_def array_write_def less_Suc_eq numeral_3_eq_3)
  show ?thesis
    unfolding agent_step_def c sum.case Let_def r c1 n1 p fl mv w
    by simp
qed

lemma tiny_cache_fields:
  "neighbors (tiny_cache st) = [0, 1, 2, 0, 0, 0, 0, 0, 0, 0]" "count (tiny_cache st) = 3"
  "\<lparr>neighbors = [0, 1, 2, 0, 0, 0, 0, 0, 0, 0], count = 3, frame_cached = f\<rparr> = tiny_cache f"
  by (simp_all add: tiny_cache_def)

lemma tiny_budget:
  "((\<lambda>_. 11 :: real) i > MAX_FRAME_TIME_MS tiny_config \<and> u > NUM_PARTICLES tiny_config div 2)
   = (1 < u)"
  "((\<lambda>_. 0 :: real) i > MAX_FRAME_TIME_MS tiny_config \<and> u > NUM_PARTICLES tiny_config div 2)
   = False"
  by (simp_all add: tiny_config_def)

text \<open>Frames 2 and 3 of the scenario when every iteration finds the time above the
  budget: agents 0 and 1 are processed, agent 2 is skipped.\<close>

lemma tiny_loop_over_budget_2:
  "agent_loop tiny_config (\<lambda>_. 11) sw [0..<nat 3]
     (tiny_sim 2 t [tiny_cache 0, tiny_cache 1, tiny_cache 1], 0)
   = Inr (tiny_sim 2 t [tiny_cache 2, tiny_cache 1, tiny_cache 1], 2)"
proof -
  have a: "agent_step tiny_config sw 0 (tiny_sim 2 t [tiny_cache 0, tiny_cache 1, tiny_cache 1])
           = Inr (tiny_sim 2 t [tiny_cache 2, tiny_cache 1, tiny_cache 1])"
    using tiny_step [of 0 "[tiny_cache 0, tiny_cache 1, tiny_cache 1]" 2 sw t]
    by (simp add: tiny_cache_fields)
  have b: "agent_step tiny_config sw 1 (tiny_sim 2 t [tiny_cache 2, tiny_cache 1, tiny_cache 1])
           = Inr (tiny_sim 2 t [tiny_cache 2, tiny_cache 1, tiny_cache 1])"
    using tiny_step [of 1 "[tiny_cache 2, tiny_cache 1, tiny_cache 1]" 2 sw t]
    by (simp add: tiny_cache_fields)
  have l: "[0..<nat 3] = [0, 1, 2]" by (simp add: upt_3)
  show ?thesis
    unfolding l agent_loop.simps prod.case tiny_budget a b sum.case by simp
qed

lemma tiny_loop_over_budget_3:
  "agent_loop tiny_config (\<lambda>_. 11) sw [0..<nat 3]
     (tiny_sim 3 t [tiny_cache 2, tiny_cache 1, tiny_cache 1], 0)
   = Inr (tiny_sim 3 t [tiny_cache 2, tiny_cache 3, tiny_cache 1], 2)"
proof -
  have a: "agent_step tiny_config sw 0 (tiny_sim 3 t [tiny_cache 2, tiny_cache 1, tiny_cache 1])
           = Inr (tiny_sim 3 t [tiny_cache 2, tiny_cache 1, tiny_cache 1])"
    using tiny_step [of 0 "[tiny_cache 2, tiny_cache 1, tiny_cache 1]" 3 sw t]
    by (simp add: tiny_cache_fields)
  have b: "agent_step tiny_config sw 1 (tiny_sim 3 t [tiny_cache 2, tiny_cache 1, tiny_cache 1])
           = Inr (tiny_sim 3 t [tiny_cache 2, tiny_cache 3, tiny_cache 1])"
    using tiny_step [of 1 "[tiny_cache 2, tiny_cache 1, tiny_cache 1]" 3 sw t]
    by (simp add: tiny_cache_fields)
  have l: "[0..<nat 3] = [0, 1, 2]" by (simp add: upt_3)
  show ?thesis
    unfolding l agent_loop.simps prod.case tiny_budget a b sum.case by simp
qed

text \<open>Frame 2 of the scenario when the time stays within the budget: all three agents are
  processed, and agents 0 and 2, whose group is that of the frame, are refreshed.\<close>

lemma tiny_loop_in_time_2:
  "agent_loop tiny_config (\<lambda>_. 0) sw [0..<nat 3]
     (tiny_sim 2 t [tiny_cache 0, tiny_cache 1, tiny_cache 1], 0)
   = Inr (tiny_sim 2 t [tiny_cache 2, tiny_cache 1, tiny_cache 2], 3)"
proof -
  have a: "agent_step tiny_config sw 0 (tiny_sim 2 t [tiny_cache 0, tiny_cache 1, tiny_cache 1])
           = Inr (tiny_sim 2 t [tiny_cache 2, tiny_cache 1, tiny_cache 1])"
    using tiny_step [of 0 "[tiny_cache 0, tiny_cache 1, tiny_cache 1]" 2 sw t]
    by (simp add: tiny_cache_fields)
  have b: "agent_step tiny_config sw 1 (tiny_sim 2 t [tiny_cache 2, tiny_cache 1, tiny_cache 1])
           = Inr (tiny_sim 2 t [tiny_cache 2, tiny_cache 1, tiny_cache 1])"
    using tiny_step [of 1 "[tiny_cache 2, tiny_cache 1, tiny_cache 1]" 2 sw t]
    by (simp add: tiny_cache_fields)
  have c: "agent_step tiny_config sw 2 (tiny_sim 2 t [tiny_cache 2, tiny_cache 1, tiny_cache 1])
           = Inr (tiny_sim 2 t [tiny_cache 2, tiny_cache 1, tiny_cache 2])"
    using tiny_step [of 2 "[tiny_cache 2, tiny_cache 1, tiny_cache 1]" 2 sw t]
    by (simp add: tiny_cache_fields)
  have l: "[0..<nat 3] = [0, 1, 2]" by (simp add: upt_3)
  show ?thesis
    unfolding l agent_loop.simps prod.case tiny_budget a b c sum.case by simp
qed

text \<open>The part of \<open>update_simulation\<close> before the agent loop leaves the scenario as it is,
  but for the phase of the separation weight.\<close>

lemma tiny_grid_update:
  "spatial_grid_update (sgrid (tiny_sim f t cache)) (particles (tiny_sim f t cache)) 3
   = Inr (sgrid (tiny_sim f t cache))"
  unfolding tiny_sim_def Sim.simps by code_simp

lemma tiny_update_leaders:
  "update_leaders tiny_config (tiny_sim f t cache) = tiny_sim f (t + 1 / 100) cache"
  by (simp add: update_leaders_def tiny_sim_def tiny_config_def vec3_copy_def vec3_create_def
        Let_def)

lemma tiny_update_simulation:
  assumes "agent_loop tiny_config el (11 / 10 + sin (t + 1 / 100) * (3 / 10)) [0..<nat 3]
             (tiny_sim f (t + 1 / 100) cache, 0) = Inr (tiny_sim f (t + 1 / 100) cache', u)"
  shows "update_simulation tiny_config el (tiny_sim f t cache)
         = Inr (tiny_sim (f + 1) (t + 1 / 100) cache')"
proof -
  have g: "(tiny_sim f (t + 1 / 100) cache)\<lparr>sgrid := sgrid (tiny_sim f (t + 1 / 100) cache)\<rparr>
           = tiny_sim f (t + 1 / 100) cache"
    by simp
  have fin: "(tiny_sim f (t + 1 / 100) cache')
               \<lparr>current_frame := current_frame (tiny_sim f (t + 1 / 100) cache') + 1\<rparr>
             = tiny_sim (f + 1) (t + 1 / 100) cache'"
    by (simp add: tiny_sim_def)
  have st: "separation_time (tiny_sim f (t + 1 / 100) cache) = t + 1 / 100"
    by (simp add: tiny_sim_def)
  have c: "UPDATE_GRID_EVERY_N_FRAMES tiny_config = 1" "NUM_PARTICLES tiny_config = 3"
    by (simp_all add: tiny_config_def)
  have m: "current_frame (tiny_sim f (t + 1 / 100) cache) mod 1 = 0" by simp
  show ?thesis
    unfolding update_simulation_def Let_def tiny_update_leaders st c m
      tiny_grid_update sum.case g
    by (simp only: refl if_True sum.case assms prod.case fin)
qed

section \<open>The frame budget\<close>

text \<open>For a counter \<open>k\<close>, being above \<open>n div 2\<close> is being strictly above the half of \<open>n\<close>.\<close>

lemma more_than_half: "(n div 2 < k) = (real_of_int n / 2 < real_of_int (k :: int))"
proof -
  have "\<lfloor>real_of_int n / real_of_int 2\<rfloor> = n div 2" by (rule floor_divide_of_int_eq)
  then have "n div 2 = \<lfloor>real_of_int n / 2\<rfloor>" by simp
  then show ?thesis by (simp add: floor_less_iff)
qed

text \<open>
  C8: in the agent loop the counter \<open>particles_updated\<close> at iteration \<open>k\<close> is \<open>k\<close>. If
  iteration \<open>k\<close> finds the elapsed time above the budget and more than half of the agents
  updated, every agent from \<open>k\<close> on is skipped: its particle (position, velocity,
  acceleration) and its cache entry are those of the start of the frame. The loop never
  stops before more than half of the agents are processed, whatever the clock shows: the
  final counter is the number of agents or above the half, and the result is that of
  processing the first \<open>particles_updated\<close> agents with no exit at all.
\<close>

theorem frame_budget_skips_remaining_agents:
  assumes "agent_loop cfg elapsed sw [0..<nat (NUM_PARTICLES cfg)] (s, 0) = Inr (s', u')"
  shows "(\<forall>k j. elapsed k > MAX_FRAME_TIME_MS cfg \<and> int k > NUM_PARTICLES cfg div 2 \<and> k \<le> j
            \<longrightarrow> particles s' ! j = particles s ! j
                \<and> neighbor_cache s' ! j = neighbor_cache s ! j)
       \<and> (u' = NUM_PARTICLES cfg \<or> NUM_PARTICLES cfg div 2 < u')
       \<and> agent_loop cfg (within_budget cfg) sw [0..<nat u'] (s, 0) = Inr (s', u')
       \<and> (\<forall>j. nat u' \<le> j \<longrightarrow> particles s' ! j = particles s ! j
                             \<and> neighbor_cache s' ! j = neighbor_cache s ! j)"
proof -
  note P = agent_loop_processed [OF assms]
  have rest: "particles s' ! j = particles s ! j \<and> neighbor_cache s' ! j = neighbor_cache s ! j"
    if "nat u' \<le> j" for j
    using agent_loop_untouched [OF P(3), of j] that by simp
  have early: "particles s' ! j = particles s ! j \<and> neighbor_cache s' ! j = neighbor_cache s ! j"
    if "elapsed k > MAX_FRAME_TIME_MS cfg" and "int k > NUM_PARTICLES cfg div 2" and "k \<le> j"
    for k j
  proof -
    have "\<not> k < nat u'" using P(4) that(1,2) by blast
    then have "nat u' \<le> j" using that(3) by simp
    then show ?thesis by (rule rest)
  qed
  have half: "u' = NUM_PARTICLES cfg \<or> NUM_PARTICLES cfg div 2 < u'"
  proof (cases "nat u' = nat (NUM_PARTICLES cfg)")
    case False
    then show ?thesis using P(5) by simp
  next
    case True
    show ?thesis
    proof (cases "0 \<le> NUM_PARTICLES cfg")
      case True
      then have "u' = NUM_PARTICLES cfg"
        using \<open>nat u' = nat (NUM_PARTICLES cfg)\<close> P(1) by (simp add: eq_nat_nat_iff)
      then show ?thesis by simp
    next
      case False
      then have "NUM_PARTICLES cfg div 2 < 0" by simp
      then show ?thesis using P(1) by simp
    qed
  qed
  show ?thesis using early half P(3) rest by blast
qed

theorem frame_budget_skips_remaining_agents_witness:
  "agent_loop tiny_config (\<lambda>_. 11) 1 [0..<nat (NUM_PARTICLES tiny_config)]
     (tiny_sim 2 0 [tiny_cache 0, tiny_cache 1, tiny_cache 1], 0)
   = Inr (tiny_sim 2 0 [tiny_cache 2, tiny_cache 1, tiny_cache 1], 2)
   \<and> (11 :: real) > MAX_FRAME_TIME_MS tiny_config
   \<and> int 2 > NUM_PARTICLES tiny_config div 2
   \<and> particles (tiny_sim 2 0 [tiny_cache 2, tiny_cache 1, tiny_cache 1]) ! 2
       = particles (tiny_sim 2 0 [tiny_cache 0, tiny_cache 1, tiny_cache 1]) ! 2
   \<and> neighbor_cache (tiny_sim 2 0 [tiny_cache 2, tiny_cache 1, tiny_cache 1]) ! 2
       = neighbor_cache (tiny_sim 2 0 [tiny_cache 0, tiny_cache 1, tiny_cache 1]) ! 2"
proof -
  have n: "NUM_PARTICLES tiny_config = 3" "MAX_FRAME_TIME_MS tiny_config = 10"
    by (simp_all add: tiny_config_def)
  have e: "agent_loop tiny_config (\<lambda>_. 11) 1 [0..<nat (NUM_PARTICLES tiny_config)]
             (tiny_sim 2 0 [tiny_cache 0, tiny_cache 1, tiny_cache 1], 0)
           = Inr (tiny_sim 2 0 [tiny_cache 2, tiny_cache 1, tiny_cache 1], 2)"
    using tiny_loop_over_budget_2 [of 1 0] by (simp only: n)
  have c: "(11 :: real) > MAX_FRAME_TIME_MS tiny_config
           \<and> int 2 > NUM_PARTICLES tiny_config div 2 \<and> (2 :: nat) \<le> 2"
    by (simp add: n)
  from frame_budget_skips_remaining_agents [OF e] c
  have "particles (tiny_sim 2 0 [tiny_cache 2, tiny_cache 1, tiny_cache 1]) ! 2
          = particles (tiny_sim 2 0 [tiny_cache 0, tiny_cache 1, tiny_cache 1]) ! 2
        \<and> neighbor_cache (tiny_sim 2 0 [tiny_cache 2, tiny_cache 1, tiny_cache 1]) ! 2
          = neighbor_cache (tiny_sim 2 0 [tiny_cache 0, tiny_cache 1, tiny_cache 1]) ! 2"
    by blast
  then show ?thesis using e c by simp
qed

section \<open>The staggered refresh\<close>

text \<open>In a loop without exit every agent of the list is processed once: its cache entry
  at the end is the one its own step leaves, and that step starts from the entry and the
  frame number of the start of the loop.\<close>

lemma agent_loop_entry:
  assumes "agent_loop cfg (within_budget cfg) sw js (s, u) = Inr (s', u')"
    and "distinct js" and "i \<in> set js"
  shows "\<exists>s0 s1. agent_step cfg sw i s0 = Inr s1
           \<and> neighbor_cache s0 ! i = neighbor_cache s ! i
           \<and> current_frame s0 = current_frame s
           \<and> neighbor_cache s' ! i = neighbor_cache s1 ! i"
  using assms
proof (induction js arbitrary: s u)
  case Nil
  then show ?case by simp
next
  case (Cons j js)
  have nb: "\<not> (within_budget cfg j > MAX_FRAME_TIME_MS cfg \<and> u > NUM_PARTICLES cfg div 2)"
    by (simp add: within_budget_def)
  from Cons.prems(1) nb obtain s1 where
    st: "agent_step cfg sw j s = Inr s1"
    and rest: "agent_loop cfg (within_budget cfg) sw js (s1, u + 1) = Inr (s', u')"
    by (auto split: sum.splits)
  show ?case
  proof (cases "j = i")
    case True
    then have "i \<notin> set js" using Cons.prems(2) by simp
    then have "neighbor_cache s' ! i = neighbor_cache s1 ! i"
      using agent_loop_untouched [OF rest] by simp
    then show ?thesis using st True by blast
  next
    case False
    then have "i \<in> set js" and "distinct js" using Cons.prems(2,3) by auto
    from Cons.IH [OF rest this(2,1)] obtain s0 s2 where
      "agent_step cfg sw i s0 = Inr s2" "neighbor_cache s0 ! i = neighbor_cache s1 ! i"
      "current_frame s0 = current_frame s1" "neighbor_cache s' ! i = neighbor_cache s2 ! i"
      by blast
    then show ?thesis
      using agent_step_frame(3) [OF st] agent_step_frame(5) [OF st, of i] False by metis
  qed
qed

text \<open>Every window of \<open>p\<close> consecutive frames has exactly one frame of a given residue.\<close>

lemma window_unique_residue:
  fixes f p r :: int
  assumes "0 < p"
  shows "\<exists>!g. f \<le> g \<and> g < f + p \<and> g mod p = r mod p"
proof (rule ex1I [of _ "f + (r - f) mod p"])
  have "0 \<le> (r - f) mod p" and "(r - f) mod p < p" using assms by simp_all
  moreover have "(f + (r - f) mod p) mod p = r mod p"
    by (simp add: mod_add_right_eq)
  ultimately show "f \<le> f + (r - f) mod p \<and> f + (r - f) mod p < f + p
                   \<and> (f + (r - f) mod p) mod p = r mod p"
    by simp
next
  fix g assume g: "f \<le> g \<and> g < f + p \<and> g mod p = r mod p"
  then have "(g - f) mod p = (r - f) mod p" by (metis mod_diff_left_eq)
  moreover have "(g - f) mod p = g - f" using g by simp
  ultimately show "g = f + (r - f) mod p" by simp
qed

text \<open>
  C7, amended: in every window of \<open>cache_period\<close> consecutive frames exactly one frame has
  the stagger group of agent \<open>i\<close>. In a frame at or after the cold-start window the agent
  loop refreshes the cache of agent \<open>i\<close> exactly when the frame has the group of \<open>i\<close> and
  the loop reaches \<open>i\<close> before the frame-budget exit (\<open>i\<close> is below the final value of
  \<open>particles_updated\<close>); otherwise the cache entry of \<open>i\<close> is left as it was.
\<close>

theorem stagger_refresh_when_reached:
  assumes p: "0 < CACHE_NEIGHBORS_FRAMES cfg"
    and f: "CACHE_NEIGHBORS_FRAMES cfg \<le> current_frame s"
    and loop: "agent_loop cfg elapsed sw [0..<nat (NUM_PARTICLES cfg)] (s, 0) = Inr (s', u')"
    and old: "frame_cached (neighbor_cache s ! i) < current_frame s"
  shows "(frame_cached (neighbor_cache s' ! i) = current_frame s)
           = (int i < u' \<and> current_frame s mod CACHE_NEIGHBORS_FRAMES cfg
                             = int i mod CACHE_NEIGHBORS_FRAMES cfg)
       \<and> (\<not> (int i < u' \<and> current_frame s mod CACHE_NEIGHBORS_FRAMES cfg
                             = int i mod CACHE_NEIGHBORS_FRAMES cfg)
            \<longrightarrow> neighbor_cache s' ! i = neighbor_cache s ! i)
       \<and> (\<exists>!g. current_frame s \<le> g \<and> g < current_frame s + CACHE_NEIGHBORS_FRAMES cfg
               \<and> g mod CACHE_NEIGHBORS_FRAMES cfg = int i mod CACHE_NEIGHBORS_FRAMES cfg)"
proof -
  note P = agent_loop_processed [OF loop]
  let ?grp = "current_frame s mod CACHE_NEIGHBORS_FRAMES cfg
                = int i mod CACHE_NEIGHBORS_FRAMES cfg"
  have skipped: "neighbor_cache s' ! i = neighbor_cache s ! i" if "\<not> int i < u'"
  proof -
    have "i \<notin> set [0..<nat u']" using that by auto
    then show ?thesis using agent_loop_untouched [OF P(3)] by simp
  qed
  have reached: "(?grp \<longrightarrow> frame_cached (neighbor_cache s' ! i) = current_frame s)
                 \<and> (\<not> ?grp \<longrightarrow> neighbor_cache s' ! i = neighbor_cache s ! i)"
    if "int i < u'"
  proof -
    have "i \<in> set [0..<nat u']" using that by auto
    from agent_loop_entry [OF P(3) _ this] obtain s0 s1 where
      st: "agent_step cfg sw i s0 = Inr s1"
      and c0: "neighbor_cache s0 ! i = neighbor_cache s ! i"
      and f0: "current_frame s0 = current_frame s"
      and c1: "neighbor_cache s' ! i = neighbor_cache s1 ! i"
      by auto
    have cold: "\<not> current_frame s0 < CACHE_NEIGHBORS_FRAMES cfg" using f f0 by simp
    show ?thesis
      using agent_step_frame(6,7) [OF st] cold c0 f0 c1 by auto
  qed
  have a: "(frame_cached (neighbor_cache s' ! i) = current_frame s) = (int i < u' \<and> ?grp)"
    using skipped reached old by (cases "int i < u'"; cases ?grp) auto
  have b: "\<not> (int i < u' \<and> ?grp) \<Longrightarrow> neighbor_cache s' ! i = neighbor_cache s ! i"
    using skipped reached by blast
  show ?thesis
    using a b window_unique_residue [OF p, of "current_frame s" "int i"] by blast
qed

theorem stagger_refresh_when_reached_witness:
  "0 < CACHE_NEIGHBORS_FRAMES tiny_config
   \<and> CACHE_NEIGHBORS_FRAMES tiny_config
       \<le> current_frame (tiny_sim 2 0 [tiny_cache 0, tiny_cache 1, tiny_cache 1])
   \<and> agent_loop tiny_config (\<lambda>_. 0) 1 [0..<nat (NUM_PARTICLES tiny_config)]
       (tiny_sim 2 0 [tiny_cache 0, tiny_cache 1, tiny_cache 1], 0)
     = Inr (tiny_sim 2 0 [tiny_cache 2, tiny_cache 1, tiny_cache 2], 3)
   \<and> frame_cached (neighbor_cache (tiny_sim 2 0 [tiny_cache 0, tiny_cache 1, tiny_cache 1]) ! 2)
       < current_frame (tiny_sim 2 0 [tiny_cache 0, tiny_cache 1, tiny_cache 1])
   \<and> frame_cached (neighbor_cache (tiny_sim 2 0 [tiny_cache 2, tiny_cache 1, tiny_cache 2]) ! 2)
       = current_frame (tiny_sim 2 0 [tiny_cache 0, tiny_cache 1, tiny_cache 1])
   \<and> neighbor_cache (tiny_sim 2 0 [tiny_cache 2, tiny_cache 1, tiny_cache 2]) ! 1
       = neighbor_cache (tiny_sim 2 0 [tiny_cache 0, tiny_cache 1, tiny_cache 1]) ! 1"
proof -
  have n: "NUM_PARTICLES tiny_config = 3" "CACHE_NEIGHBORS_FRAMES tiny_config = 2"
    by (simp_all add: tiny_config_def)
  have h1: "0 < CACHE_NEIGHBORS_FRAMES tiny_config" by (simp add: n)
  have h2: "CACHE_NEIGHBORS_FRAMES tiny_config
              \<le> current_frame (tiny_sim 2 0 [tiny_cache 0, tiny_cache 1, tiny_cache 1])"
    by (simp add: n tiny_sim_def)
  have e: "agent_loop tiny_config (\<lambda>_. 0) 1 [0..<nat (NUM_PARTICLES tiny_config)]
             (tiny_sim 2 0 [tiny_cache 0, tiny_cache 1, tiny_cache 1], 0)
           = Inr (tiny_sim 2 0 [tiny_cache 2, tiny_cache 1, tiny_cache 2], 3)"
    using tiny_loop_in_time_2 [of 1 0] by (simp only: n)
  have o2: "frame_cached (neighbor_cache (tiny_sim 2 0 [tiny_cache 0, tiny_cache 1, tiny_cache 1]) ! 2)
             < current_frame (tiny_sim 2 0 [tiny_cache 0, tiny_cache 1, tiny_cache 1])"
    and o1: "frame_cached (neighbor_cache (tiny_sim 2 0 [tiny_cache 0, tiny_cache 1, tiny_cache 1]) ! 1)
             < current_frame (tiny_sim 2 0 [tiny_cache 0, tiny_cache 1, tiny_cache 1])"
    by (simp_all add: tiny_sim_def tiny_cache_def)
  have f: "current_frame (tiny_sim 2 0 [tiny_cache 0, tiny_cache 1, tiny_cache 1]) = 2"
    by (simp add: tiny_sim_def)
  have a: "frame_cached (neighbor_cache (tiny_sim 2 0 [tiny_cache 2, tiny_cache 1, tiny_cache 2]) ! 2)
           = current_frame (tiny_sim 2 0 [tiny_cache 0, tiny_cache 1, tiny_cache 1])"
    using stagger_refresh_when_reached [OF h1 h2 e o2] by (simp add: n f)
  have b: "neighbor_cache (tiny_sim 2 0 [tiny_cache 2, tiny_cache 1, tiny_cache 2]) ! 1
           = neighbor_cache (tiny_sim 2 0 [tiny_cache 0, tiny_cache 1, tiny_cache 1]) ! 1"
    using stagger_refresh_when_reached [OF h1 h2 e o1] by (simp add: n f)
  show ?thesis using h1 h2 e o2 a b by simp
qed

text \<open>
  C7, as stated: after the cold-start window every agent is refreshed exactly once in any
  window of \<open>cache_period\<close> frames. This fails when the frame budget is exceeded. With
  three agents and a cache period of 2, frames 2 and 3 both run over the budget: the loop
  leaves before agent 2 in both, and the cache of agent 2, whose group is that of
  frame 2, is not refreshed in the window.
\<close>

theorem stagger_skipped_over_budget_counterexample:
  "CACHE_NEIGHBORS_FRAMES tiny_config = 2
   \<and> (2 :: int) mod CACHE_NEIGHBORS_FRAMES tiny_config
       = int 2 mod CACHE_NEIGHBORS_FRAMES tiny_config
   \<and> update_simulation tiny_config (\<lambda>_. 11)
       (tiny_sim 2 0 [tiny_cache 0, tiny_cache 1, tiny_cache 1])
     = Inr (tiny_sim 3 (1 / 100) [tiny_cache 2, tiny_cache 1, tiny_cache 1])
   \<and> update_simulation tiny_config (\<lambda>_. 11)
       (tiny_sim 3 (1 / 100) [tiny_cache 2, tiny_cache 1, tiny_cache 1])
     = Inr (tiny_sim 4 (2 / 100) [tiny_cache 2, tiny_cache 3, tiny_cache 1])
   \<and> neighbor_cache (tiny_sim 4 (2 / 100) [tiny_cache 2, tiny_cache 3, tiny_cache 1]) ! 2
       = neighbor_cache (tiny_sim 2 0 [tiny_cache 0, tiny_cache 1, tiny_cache 1]) ! 2"
proof -
  have n: "CACHE_NEIGHBORS_FRAMES tiny_config = 2" by (simp add: tiny_config_def)
  have a: "update_simulation tiny_config (\<lambda>_. 11)
             (tiny_sim 2 0 [tiny_cache 0, tiny_cache 1, tiny_cache 1])
           = Inr (tiny_sim (2 + 1) (0 + 1 / 100) [tiny_cache 2, tiny_cache 1, tiny_cache 1])"
    by (rule tiny_update_simulation) (rule tiny_loop_over_budget_2)
  have b: "update_simulation tiny_config (\<lambda>_. 11)
             (tiny_sim 3 (1 / 100) [tiny_cache 2, tiny_cache 1, tiny_cache 1])
           = Inr (tiny_sim (3 + 1) (1 / 100 + 1 / 100)
                    [tiny_cache 2, tiny_cache 3, tiny_cache 1])"
    by (rule tiny_update_simulation) (rule tiny_loop_over_budget_3)
  have c: "neighbor_cache (tiny_sim 4 (2 / 100) [tiny_cache 2, tiny_cache 3, tiny_cache 1]) ! 2
           = neighbor_cache (tiny_sim 2 0 [tiny_cache 0, tiny_cache 1, tiny_cache 1]) ! 2"
    by (simp add: tiny_sim_def)
  show ?thesis using n a b c by simp
qed

text \<open>
  The stamps of the cache stay behind the frame counter: if no stamp is above the frame
  number when a frame starts, every stamp is below the frame number when the next frame
  starts. This is the hypothesis on the stamp in the theorem above.
\<close>

lemma agent_loop_stamps:
  assumes "agent_loop cfg el sw js (s, u) = Inr (s', u')"
    and "\<forall>j. frame_cached (neighbor_cache s ! j) \<le> current_frame s"
  shows "\<forall>j. frame_cached (neighbor_cache s' ! j) \<le> current_frame s
         \<and> current_frame s' = current_frame s"
  using assms
proof (induction js arbitrary: s u)
  case Nil
  then show ?case by simp
next
  case (Cons i js)
  show ?case
  proof (cases "el i > MAX_FRAME_TIME_MS cfg \<and> u > NUM_PARTICLES cfg div 2")
    case True
    then show ?thesis using Cons.prems by simp
  next
    case False
    with Cons.prems obtain s1 where
      st: "agent_step cfg sw i s = Inr s1"
      and rest: "agent_loop cfg el sw js (s1, u + 1) = Inr (s', u')"
      by (auto split: sum.splits)
    have f1: "current_frame s1 = current_frame s" by (rule agent_step_frame(3) [OF st])
    have "frame_cached (neighbor_cache s1 ! j) \<le> current_frame s1" for j
    proof (cases "j = i")
      case False
      then show ?thesis using agent_step_frame(5) [OF st, of j] Cons.prems(2) f1 by simp
    next
      case True
      then show ?thesis
        using agent_step_frame(6,7) [OF st] Cons.prems(2) f1
        by (metis order_refl)
    qed
    then show ?thesis using Cons.IH [OF rest] f1 by simp
  qed
qed

lemma update_simulation_stamps:
  assumes "update_simulation cfg el s = Inr s'"
    and "\<forall>j. frame_cached (neighbor_cache s ! j) \<le> current_frame s"
  shows "\<forall>j. frame_cached (neighbor_cache s' ! j) < current_frame s'"
proof -
  define s1 where "s1 = update_leaders cfg s"
  define w where "w = 11 / 10 + sin (separation_time s1) * (3 / 10)"
  have l: "neighbor_cache s1 = neighbor_cache s" "current_frame s1 = current_frame s"
    by (simp_all add: s1_def update_leaders_def Let_def)
  from assms(1) obtain s2 where
    g: "(if current_frame s1 mod UPDATE_GRID_EVERY_N_FRAMES cfg = 0
         then (case spatial_grid_update (sgrid s1) (particles s1) (NUM_PARTICLES cfg) of
                 Inl e \<Rightarrow> Inl e
               | Inr g \<Rightarrow> Inr (s1\<lparr>sgrid := g\<rparr>))
         else Inr s1) = Inr s2"
    and r: "(case agent_loop cfg el w [0..<nat (NUM_PARTICLES cfg)] (s2, 0) of
               Inl e \<Rightarrow> Inl e
             | Inr (s3, particles_updated) \<Rightarrow>
                 Inr (s3\<lparr>current_frame := current_frame s3 + 1\<rparr>)) = Inr s'"
    unfolding update_simulation_def Let_def s1_def [symmetric] w_def [symmetric]
    by (auto split: sum.splits)
  have s2: "neighbor_cache s2 = neighbor_cache s" "current_frame s2 = current_frame s"
    using g l by (auto split: if_splits sum.splits)
  from r obtain s3 u where
    loop: "agent_loop cfg el w [0..<nat (NUM_PARTICLES cfg)] (s2, 0) = Inr (s3, u)"
    and s': "s' = s3\<lparr>current_frame := current_frame s3 + 1\<rparr>"
    by (auto split: sum.splits prod.splits)
  have "\<forall>j. frame_cached (neighbor_cache s2 ! j) \<le> current_frame s2"
    using assms(2) s2 by simp
  from agent_loop_stamps [OF loop this]
  show ?thesis using s' s2 by simp
qed

text \<open>Every call of \<open>update_simulation\<close> that returns advances the frame counter by one.\<close>

lemma update_simulation_frame:
  assumes "update_simulation cfg el s = Inr s'"
  shows "current_frame s' = current_frame s + 1"
proof -
  define s1 where "s1 = update_leaders cfg s"
  define w where "w = 11 / 10 + sin (separation_time s1) * (3 / 10)"
  have l: "current_frame s1 = current_frame s"
    by (simp add: s1_def update_leaders_def Let_def)
  from assms obtain s2 where
    g: "(if current_frame s1 mod UPDATE_GRID_EVERY_N_FRAMES cfg = 0
         then (case spatial_grid_update (sgrid s1) (particles s1) (NUM_PARTICLES cfg) of
                 Inl e \<Rightarrow> Inl e
               | Inr g \<Rightarrow> Inr (s1\<lparr>sgrid := g\<rparr>))
         else Inr s1) = Inr s2"
    and r: "(case agent_loop cfg el w [0..<nat (NUM_PARTICLES cfg)] (s2, 0) of
               Inl e \<Rightarrow> Inl e
             | Inr (s3, particles_updated) \<Rightarrow>
                 Inr (s3\<lparr>current_frame := current_frame s3 + 1\<rparr>)) = Inr s'"
    unfolding update_simulation_def Let_def s1_def [symmetric] w_def [symmetric]
    by (auto split: sum.splits)
  have s2: "current_frame s2 = current_frame s"
    using g l by (auto split: if_splits sum.splits)
  from r obtain s3 u where
    loop: "agent_loop cfg el w [0..<nat (NUM_PARTICLES cfg)] (s2, 0) = Inr (s3, u)"
    and s': "s' = s3\<lparr>current_frame := current_frame s3 + 1\<rparr>"
    by (auto split: sum.splits prod.splits)
  have "nat (NUM_PARTICLES cfg) \<notin> set [0..<nat (NUM_PARTICLES cfg)]" by simp
  from agent_loop_untouched [OF loop this] have "current_frame s3 = current_frame s2" by simp
  then show ?thesis using s' s2 by simp
qed

section \<open>The speed limit of a particle\<close>

text \<open>Every particle is made by \<open>particle_create\<close> with a speed limit of 4, and no step of
  the simulation changes the limit.\<close>

lemma particle_create_max_speed: "max_speed (particle_create a b c r1 r2) = 4"
  by (simp add: particle_create_def)

lemma max_speed_kept:
  "max_speed (particle_update p) = max_speed p"
  "max_speed (particle_wrap p w h d) = max_speed p"
  "particle_flock_optimized p idx ps nbrs n la lb pr sw = Inr p' \<Longrightarrow> max_speed p' = max_speed p"
  by (auto simp: particle_update_def particle_wrap_def particle_flock_optimized_def Let_def
        split: sum.splits)

section \<open>Rounding\<close>

lemma exponent32_ge: "- 126 \<le> exponent32 a"
  by (simp add: exponent32_def)

lemma exponent32_upper: "\<bar>a\<bar> < 2 powi (exponent32 a + 1)"
proof -
  define n where "n = \<lfloor>\<bar>a\<bar> * 2 ^ 149\<rfloor>"
  have n0: "0 \<le> n" by (simp add: n_def)
  have "\<bar>a\<bar> * 2 ^ 149 < 2 powi (exponent32 a + 150)"
  proof (cases "n = 0")
    case True
    then have "\<bar>a\<bar> * 2 ^ 149 < 1" unfolding n_def by linarith
    moreover have "(1::real) \<le> 2 powi (exponent32 a + 150)"
      using exponent32_ge [of a] by (intro one_le_power_int) simp_all
    ultimately show ?thesis by linarith
  next
    case False
    then have pos: "0 < n" using n0 by simp
    have b: "bitlen n \<ge> 0" by (rule bitlen_nonneg)
    have "n < 2 ^ nat (bitlen n)" using bitlen_bounds [OF pos] by simp
    then have "\<bar>a\<bar> * 2 ^ 149 < 2 ^ nat (bitlen n)"
      unfolding n_def by (metis floor_less_iff of_int_numeral of_int_power)
    also have "\<dots> = 2 powi (bitlen n)" using b by (simp add: power_int_nonneg_exp)
    also have "\<dots> \<le> 2 powi (exponent32 a + 150)"
      by (intro power_int_increasing) (simp_all add: exponent32_def n_def)
    finally show ?thesis .
  qed
  moreover have "(2::real) powi (exponent32 a + 150) = 2 powi (exponent32 a + 1) * 2 ^ 149"
    by (simp add: power_int_add)
  ultimately show ?thesis by simp
qed

lemma exponent32_lower:
  assumes "2 powi (- 126) \<le> \<bar>a\<bar>"
  shows "2 powi (exponent32 a) \<le> \<bar>a\<bar>"
proof -
  define n where "n = \<lfloor>\<bar>a\<bar> * 2 ^ 149\<rfloor>"
  have "(2::real) ^ 23 = 2 powi (- 126) * 2 ^ 149" by (simp add: power_int_minus field_simps)
  also have "\<dots> \<le> \<bar>a\<bar> * 2 ^ 149" using assms by (intro mult_right_mono) simp_all
  finally have "(2::real) ^ 23 \<le> \<bar>a\<bar> * 2 ^ 149" .
  then have n23: "2 ^ 23 \<le> n" unfolding n_def by (simp add: le_floor_iff)
  moreover have "(0::int) < 2 ^ 23" by simp
  ultimately have pos: "0 < n" by linarith
  have bb: "2 ^ nat (bitlen n - 1) \<le> n" "n < 2 ^ nat (bitlen n)"
    using bitlen_bounds [OF pos] by simp_all
  have "(2::int) ^ 23 < 2 ^ nat (bitlen n)" using n23 bb(2) by linarith
  then have "23 < nat (bitlen n)" by (rule power_less_imp_less_exp [rotated]) simp
  then have b24: "24 \<le> bitlen n" by linarith
  then have e: "exponent32 a = bitlen n - 150" by (simp add: exponent32_def n_def)
  have "(2::real) powi (bitlen n - 1) = 2 ^ nat (bitlen n - 1)"
    using b24 by (simp add: power_int_nonneg_exp)
  also have "\<dots> \<le> of_int n" using bb(1) by (metis of_int_le_iff of_int_numeral of_int_power)
  also have "\<dots> \<le> \<bar>a\<bar> * 2 ^ 149" unfolding n_def by simp
  finally have "(2::real) powi (bitlen n - 1) \<le> \<bar>a\<bar> * 2 ^ 149" .
  moreover have "(2::real) powi (bitlen n - 1) = 2 powi (bitlen n - 150) * 2 ^ 149"
    by (simp add: power_int_diff)
  ultimately show ?thesis unfolding e by simp
qed

lemma exponent32_small:
  assumes "\<bar>a\<bar> < 2 powi (- 126)"
  shows "exponent32 a = - 126"
proof -
  define n where "n = \<lfloor>\<bar>a\<bar> * 2 ^ 149\<rfloor>"
  have "\<bar>a\<bar> * 2 ^ 149 < 2 powi (- 126) * 2 ^ 149"
    using assms by (intro mult_strict_right_mono) simp_all
  also have "\<dots> = (2::real) ^ 23" by (simp add: power_int_minus field_simps)
  finally have "\<bar>a\<bar> * 2 ^ 149 < 2 ^ 23" .
  then have n23: "n < 2 ^ 23" unfolding n_def by (simp add: floor_less_iff)
  have "bitlen n \<le> 23"
  proof (cases "0 < n")
    case True
    have "2 ^ nat (bitlen n - 1) \<le> n" using bitlen_bounds [OF True] by simp
    then have "(2::int) ^ nat (bitlen n - 1) < 2 ^ 23" using n23 by linarith
    then have "nat (bitlen n - 1) < 23" by (rule power_less_imp_less_exp [rotated]) simp
    then show ?thesis by linarith
  next
    case False
    then have "bitlen n = 0" by (simp add: bitlen_eq_zero_iff)
    then show ?thesis by simp
  qed
  then show ?thesis by (simp add: exponent32_def n_def)
qed

lemma two_powi_less_cancel: "(2::real) powi m < 2 powi n \<Longrightarrow> m < n"
proof (rule ccontr)
  assume a: "(2::real) powi m < 2 powi n" and "\<not> m < n"
  then have "n \<le> m" by simp
  then have "(2::real) powi n \<le> 2 powi m" by (intro power_int_increasing) simp_all
  then show False using a by linarith
qed

lemma exponent32_eqI:
  assumes lo: "2 powi e \<le> \<bar>a\<bar>" and hi: "\<bar>a\<bar> < 2 powi (e + 1)" and e: "- 126 \<le> e"
  shows "exponent32 a = e"
proof -
  have "(2::real) powi (- 126) \<le> 2 powi e" using e by (intro power_int_increasing) simp_all
  then have n: "2 powi (- 126) \<le> \<bar>a\<bar>" using lo by linarith
  have "(2::real) powi (exponent32 a) < 2 powi (e + 1)"
    using exponent32_lower [OF n] hi by linarith
  then have a: "exponent32 a < e + 1" by (rule two_powi_less_cancel)
  have "(2::real) powi e < 2 powi (exponent32 a + 1)"
    using exponent32_upper [of a] lo by linarith
  then have b: "e < exponent32 a + 1" by (rule two_powi_less_cancel)
  show ?thesis using a b by simp
qed

lemma ulp32_pos: "0 < ulp32 a"
  by (simp add: ulp32_def)

lemma round_even_near: "\<bar>of_int (round_even q) - q\<bar> \<le> 1 / 2"
  unfolding round_even_def Let_def by (auto simp: abs_le_iff)

lemma round_even_le: "q \<le> of_int n \<Longrightarrow> round_even q \<le> n"
  unfolding round_even_def Let_def by (auto simp: floor_le_iff le_floor_iff)

lemma round_even_ge: "of_int n \<le> q \<Longrightarrow> n \<le> round_even q"
proof -
  assume "of_int n \<le> q"
  then have "n \<le> \<lfloor>q\<rfloor>" by (simp add: le_floor_iff)
  moreover have "\<lfloor>q\<rfloor> \<le> round_even q" by (simp add: round_even_def Let_def)
  ultimately show ?thesis by simp
qed

lemma round_even_eqI:
  assumes "of_int k - 1 / 2 < q" and "q < of_int k + 1 / 2"
  shows "round_even q = k"
proof -
  have "\<bar>of_int (round_even q) - q\<bar> \<le> 1 / 2" by (rule round_even_near)
  then have "\<bar>(of_int (round_even q) :: real) - of_int k\<bar> < 1" using assms by linarith
  then have "\<bar>round_even q - k\<bar> < 1" by (metis of_int_diff of_int_abs of_int_less_1_iff)
  then show ?thesis by simp
qed


lemma fl32_error_ulp: "\<bar>fl32 a - a\<bar> \<le> ulp32 a / 2"
proof -
  define s where "s = ulp32 a"
  have s: "0 < s" by (simp add: s_def ulp32_pos)
  have "fl32 a - a = (of_int (round_even (a / s)) - a / s) * s"
    using s by (simp add: fl32_def s_def algebra_simps)
  then have "\<bar>fl32 a - a\<bar> = \<bar>of_int (round_even (a / s)) - a / s\<bar> * s"
    using s by (simp add: abs_mult)
  also have "\<dots> \<le> 1 / 2 * s"
    using s round_even_near [of "a / s"] by (intro mult_right_mono) simp_all
  finally show ?thesis by (simp add: s_def)
qed

lemma fl32_error: "\<bar>fl32 a - a\<bar> \<le> \<bar>a\<bar> / 2 ^ 24 + 1 / 2 ^ 150"
proof (cases "2 powi (- 126) \<le> \<bar>a\<bar>")
  case True
  have "ulp32 a / 2 = 2 powi (exponent32 a) / 2 ^ 24"
    by (simp add: ulp32_def power_int_diff)
  also have "\<dots> \<le> \<bar>a\<bar> / 2 ^ 24"
    using exponent32_lower [OF True] by (intro divide_right_mono) simp_all
  finally have "ulp32 a / 2 \<le> \<bar>a\<bar> / 2 ^ 24" .
  then show ?thesis using fl32_error_ulp [of a] by simp
next
  case False
  then have "exponent32 a = - 126" by (intro exponent32_small) simp
  then have u: "ulp32 a / 2 = 1 / 2 ^ 150"
    by (simp add: ulp32_def power_int_minus field_simps)
  have "\<bar>fl32 a - a\<bar> \<le> ulp32 a / 2" by (rule fl32_error_ulp)
  also have "\<dots> = 1 / 2 ^ 150" by (rule u)
  also have "\<dots> \<le> \<bar>a\<bar> / 2 ^ 24 + 1 / 2 ^ 150" by simp
  finally show ?thesis .
qed

lemma fl32_nonneg: "0 \<le> a \<Longrightarrow> 0 \<le> fl32 a"
proof -
  assume "0 \<le> a"
  then have "of_int 0 \<le> a / ulp32 a" using ulp32_pos [of a] by simp
  then have "0 \<le> round_even (a / ulp32 a)" by (rule round_even_ge)
  then show ?thesis using ulp32_pos [of a] by (simp add: fl32_def)
qed

lemma fl32_zero: "fl32 0 = 0"
  by (simp add: fl32_def round_even_def)

lemma fl32_lower: "0 \<le> x \<Longrightarrow> x * (1 - 1 / 2 ^ 24) - 1 / 2 ^ 150 \<le> fl32 x"
  using fl32_error [of x] by (simp add: algebra_simps abs_le_iff)

lemma fl32_upper: "0 \<le> x \<Longrightarrow> fl32 x \<le> x * (1 + 1 / 2 ^ 24) + 1 / 2 ^ 150"
  using fl32_error [of x] by (simp add: algebra_simps abs_le_iff)

lemma fl32_abs_upper: "\<bar>fl32 x\<bar> \<le> \<bar>x\<bar> * (1 + 1 / 2 ^ 24) + 1 / 2 ^ 150"
proof -
  have "\<bar>fl32 x\<bar> \<le> \<bar>fl32 x - x\<bar> + \<bar>x\<bar>" by simp
  then show ?thesis using fl32_error [of x] by (simp add: algebra_simps)
qed

section \<open>The clamp of the velocity in binary32\<close>

lemma round32_nonneg: "0 \<le> x \<Longrightarrow> round32 x = PlusInf \<or> round32 x = Finite (fl32 x)"
  using fl32_nonneg [of x] by (simp add: round32_def Let_def)

lemma round32_finite:
  assumes "\<bar>x\<bar> \<le> 2 ^ 127"
  shows "round32 x = Finite (fl32 x)"
proof -
  have "\<bar>fl32 x\<bar> \<le> \<bar>x\<bar> * (1 + 1 / 2 ^ 24) + 1 / 2 ^ 150" by (rule fl32_abs_upper)
  also have "\<dots> \<le> 2 ^ 127 * (1 + 1 / 2 ^ 24) + 1 / 2 ^ 150"
    using assms by (intro add_right_mono mult_right_mono) simp_all
  also have "\<dots> < 2 ^ 128" by simp
  finally have "\<bar>fl32 x\<bar> < 2 ^ 128" .
  then show ?thesis by (simp add: round32_def Let_def abs_less_iff not_le)
qed

lemma f32_add_nonneg:
  assumes "x = PlusInf \<or> (\<exists>p. x = Finite p \<and> 0 \<le> p)"
    and "y = PlusInf \<or> (\<exists>q. y = Finite q \<and> 0 \<le> q)"
  shows "f32_add x y = PlusInf
       \<or> (\<exists>p q. x = Finite p \<and> y = Finite q \<and> 0 \<le> p \<and> 0 \<le> q
                  \<and> f32_add x y = Finite (fl32 (p + q)))"
proof -
  consider "x = PlusInf" | "y = PlusInf" | p q where "x = Finite p" "y = Finite q" "0 \<le> p" "0 \<le> q"
    using assms by blast
  then show ?thesis
  proof cases
    case 1
    then show ?thesis using assms(2) by auto
  next
    case 2
    then show ?thesis using assms(1) by auto
  next
    case 3
    then show ?thesis using round32_nonneg [of "p + q"] by auto
  qed
qed

lemma sum_sq_rounding:
  fixes A B C qa qb qc p1 S0 :: real
  assumes "0 \<le> A" and "0 \<le> B" and "0 \<le> C"
    and "A * (1 - 1 / 2 ^ 24) - 1 / 2 ^ 150 \<le> qa"
    and "B * (1 - 1 / 2 ^ 24) - 1 / 2 ^ 150 \<le> qb"
    and "C * (1 - 1 / 2 ^ 24) - 1 / 2 ^ 150 \<le> qc"
    and "(qa + qb) * (1 - 1 / 2 ^ 24) - 1 / 2 ^ 150 \<le> p1"
    and "(p1 + qc) * (1 - 1 / 2 ^ 24) - 1 / 2 ^ 150 \<le> S0"
  shows "(A + B + C) * (1 - 1 / 2 ^ 24) ^ 3 - 5 / 2 ^ 150 \<le> S0"
  using assms by (simp add: power3_eq_cube algebra_simps)

text \<open>The squared magnitude as the code computes it: it overflows, or it is a number that
  is below the exact sum of squares by no more than the rounding errors.\<close>

lemma mag_sq_bound:
  fixes a b c :: real
  defines "S \<equiv> f32_add (f32_add (f32_mul (Finite a) (Finite a)) (f32_mul (Finite b) (Finite b)))
                       (f32_mul (Finite c) (Finite c))"
  shows "S = PlusInf
       \<or> (\<exists>S0. S = Finite S0 \<and> 0 \<le> S0
                \<and> (a * a + b * b + c * c) * (1 - 1 / 2 ^ 24) ^ 3 - 5 / 2 ^ 150 \<le> S0)"
proof -
  have sq: "f32_mul (Finite t) (Finite t) = PlusInf
          \<or> (\<exists>p. f32_mul (Finite t) (Finite t) = Finite p \<and> 0 \<le> p)" for t :: real
    using round32_nonneg [of "t * t"] fl32_nonneg [of "t * t"] by auto
  define s1 where "s1 = f32_add (f32_mul (Finite a) (Finite a)) (f32_mul (Finite b) (Finite b))"
  have c1: "s1 = PlusInf
          \<or> (\<exists>p q. f32_mul (Finite a) (Finite a) = Finite p \<and> f32_mul (Finite b) (Finite b) = Finite q
                   \<and> 0 \<le> p \<and> 0 \<le> q \<and> s1 = Finite (fl32 (p + q)))"
    unfolding s1_def by (rule f32_add_nonneg [OF sq sq])
  have n1: "s1 = PlusInf \<or> (\<exists>p. s1 = Finite p \<and> 0 \<le> p)"
    using c1 fl32_nonneg by fastforce
  have c2: "S = PlusInf
          \<or> (\<exists>p q. s1 = Finite p \<and> f32_mul (Finite c) (Finite c) = Finite q
                   \<and> 0 \<le> p \<and> 0 \<le> q \<and> S = Finite (fl32 (p + q)))"
    unfolding S_def s1_def [symmetric] by (rule f32_add_nonneg [OF n1 sq])
  show ?thesis
  proof (cases "S = PlusInf")
    case True
    then show ?thesis by simp
  next
    case False
    with c2 obtain p1 qc where
      s1: "s1 = Finite p1" and qc: "f32_mul (Finite c) (Finite c) = Finite qc"
      and S: "S = Finite (fl32 (p1 + qc))" and p1: "0 \<le> p1" and qc0: "0 \<le> qc"
      by blast
    from c1 s1 obtain qa qb where
      qa: "f32_mul (Finite a) (Finite a) = Finite qa" and qb: "f32_mul (Finite b) (Finite b) = Finite qb"
      and p1e: "p1 = fl32 (qa + qb)" and qa0: "0 \<le> qa" and qb0: "0 \<le> qb"
      by auto
    have sqv: "q = fl32 (t * t)" if "f32_mul (Finite t) (Finite t) = Finite q" for t q :: real
      using that round32_nonneg [of "t * t"] by auto
    have ea: "a * a * (1 - 1 / 2 ^ 24) - 1 / 2 ^ 150 \<le> qa"
      unfolding sqv [OF qa] by (rule fl32_lower) simp
    have eb: "b * b * (1 - 1 / 2 ^ 24) - 1 / 2 ^ 150 \<le> qb"
      unfolding sqv [OF qb] by (rule fl32_lower) simp
    have ec: "c * c * (1 - 1 / 2 ^ 24) - 1 / 2 ^ 150 \<le> qc"
      unfolding sqv [OF qc] by (rule fl32_lower) simp
    have e1: "(qa + qb) * (1 - 1 / 2 ^ 24) - 1 / 2 ^ 150 \<le> p1"
      unfolding p1e using qa0 qb0 by (intro fl32_lower) simp
    have e2: "(p1 + qc) * (1 - 1 / 2 ^ 24) - 1 / 2 ^ 150 \<le> fl32 (p1 + qc)"
      using p1 qc0 by (intro fl32_lower) simp
    have "(a * a + b * b + c * c) * (1 - 1 / 2 ^ 24) ^ 3 - 5 / 2 ^ 150 \<le> fl32 (p1 + qc)"
      by (rule sum_sq_rounding [OF _ _ _ ea eb ec e1 e2]) simp_all
    moreover have "0 \<le> fl32 (p1 + qc)" using p1 qc0 by (intro fl32_nonneg) simp
    ultimately show ?thesis using S by simp
  qed
qed


text \<open>From the rounded magnitude back to the exact sum of squares.\<close>

lemma length_bound:
  fixes s S0 M :: real
  assumes S0: "0 \<le> S0" and low: "s * (1 - 1 / 2 ^ 24) ^ 3 - 5 / 2 ^ 150 \<le> S0"
    and m: "fl32 (sqrt S0) \<le> M" and M: "1 / 2 ^ 40 \<le> M"
  shows "s \<le> M * M * (1 + 1 / 2 ^ 21)"
proof -
  define r where "r = sqrt S0"
  define P where "P = M * M"
  have r0: "0 \<le> r" using S0 by (simp add: r_def)
  have "r * (1 - 1 / 2 ^ 24) - 1 / 2 ^ 150 \<le> fl32 r" by (rule fl32_lower [OF r0])
  then have rM: "r \<le> M * (1 + 1 / 2 ^ 23)" using m M unfolding r_def by simp
  have "r * r \<le> (M * (1 + 1 / 2 ^ 23)) * (M * (1 + 1 / 2 ^ 23))"
    using rM r0 by (intro mult_mono) simp_all
  moreover have "r * r = S0" using S0 by (simp add: r_def)
  ultimately have a: "S0 \<le> P * ((1 + 1 / 2 ^ 23) * (1 + 1 / 2 ^ 23))"
    by (simp add: P_def algebra_simps)
  have "(1 / 2 ^ 40) * (1 / 2 ^ 40) \<le> M * M" using M by (intro mult_mono) simp_all
  then have b: "1 / 2 ^ 80 \<le> P" by (simp add: P_def)
  have "s \<le> P * (1 + 1 / 2 ^ 21)"
    using a b low by (simp add: power3_eq_cube algebra_simps)
  then show ?thesis by (simp add: P_def)
qed

text \<open>One component of the rescaled vector: the quotient by the magnitude, rounded,
  times the bound, rounded.\<close>

lemma clamp_component:
  fixes t mx :: real
  assumes t: "t * t \<le> 4" and mx: "1 / 2 ^ 40 \<le> mx" "mx \<le> 2 ^ 40"
  defines "x1 \<equiv> fl32 t"
  defines "x2 \<equiv> fl32 (x1 * mx)"
  shows "round32 t = Finite x1" and "round32 (x1 * mx) = Finite x2"
    and "x2 * x2 \<le> mx * mx * (t * t * (1 + 1 / 2 ^ 22 + 1 / 2 ^ 44) + 1 / 2 ^ 108)"
proof -
  define T where "T = \<bar>t\<bar>"
  have T0: "0 \<le> T" by (simp add: T_def)
  have TT: "T * T = t * t" by (simp add: T_def)
  have "(T - 1) * (T - 1) \<ge> 0" by simp
  then have two: "2 * T \<le> T * T + 1" by (simp add: algebra_simps)
  have T2: "T \<le> 2"
  proof (rule ccontr)
    assume "\<not> T \<le> 2"
    then have "2 < T" by simp
    then have "2 * 2 < T * T" by (intro mult_strict_mono) simp_all
    then show False using t TT by simp
  qed
  then have "\<bar>t\<bar> \<le> 2 ^ 127" unfolding T_def by simp
  then show r1: "round32 t = Finite x1" unfolding x1_def by (rule round32_finite)
  have h1: "\<bar>x1\<bar> \<le> T * (1 + 1 / 2 ^ 24) + 1 / 2 ^ 150"
    unfolding x1_def T_def by (rule fl32_abs_upper)
  have mx0: "0 \<le> mx" using mx by simp
  have p1: "\<bar>x1\<bar> * mx \<le> (T * (1 + 1 / 2 ^ 24) + 1 / 2 ^ 150) * mx"
    using h1 mx0 by (rule mult_right_mono)
  have "(T * (1 + 1 / 2 ^ 24) + 1 / 2 ^ 150) * mx \<le> (2 * (1 + 1 / 2 ^ 24) + 1 / 2 ^ 150) * 2 ^ 40"
    using T2 T0 mx mx0 by (intro mult_mono add_mono) simp_all
  also have "\<dots> \<le> 2 ^ 127" by simp
  finally have "\<bar>x1\<bar> * mx \<le> 2 ^ 127" using p1 by simp
  then have "\<bar>x1 * mx\<bar> \<le> 2 ^ 127" using mx0 by (simp add: abs_mult)
  then show "round32 (x1 * mx) = Finite x2" unfolding x2_def by (rule round32_finite)
  have "\<bar>x2\<bar> \<le> \<bar>x1 * mx\<bar> * (1 + 1 / 2 ^ 24) + 1 / 2 ^ 150"
    unfolding x2_def by (rule fl32_abs_upper)
  then have h2: "\<bar>x2\<bar> \<le> \<bar>x1\<bar> * mx * (1 + 1 / 2 ^ 24) + 1 / 2 ^ 150"
    using mx0 by (simp add: abs_mult)
  define z where "z = T * mx"
  have p1': "\<bar>x1\<bar> * mx \<le> z * (1 + 1 / 2 ^ 24) + mx / 2 ^ 150"
    using p1 by (simp add: z_def algebra_simps)
  have "\<bar>x2\<bar> \<le> z * ((1 + 1 / 2 ^ 24) * (1 + 1 / 2 ^ 24)) + mx / 2 ^ 109"
    using h2 p1' mx by (simp add: algebra_simps)
  then have B: "\<bar>x2\<bar> \<le> mx * (T * ((1 + 1 / 2 ^ 24) * (1 + 1 / 2 ^ 24)) + 1 / 2 ^ 109)"
    by (simp add: z_def algebra_simps)
  define E where "E = T * ((1 + 1 / 2 ^ 24) * (1 + 1 / 2 ^ 24)) + 1 / 2 ^ 109"
  have E0: "0 \<le> E" using T0 by (simp add: E_def)
  define Q where "Q = T * T"
  have Q0: "0 \<le> Q" by (simp add: Q_def)
  have "E * E = Q * ((1 + 1 / 2 ^ 24) * (1 + 1 / 2 ^ 24) * ((1 + 1 / 2 ^ 24) * (1 + 1 / 2 ^ 24)))
                + T * (2 * ((1 + 1 / 2 ^ 24) * (1 + 1 / 2 ^ 24)) / 2 ^ 109)
                + 1 / 2 ^ 109 / 2 ^ 109"
    by (simp add: E_def Q_def algebra_simps)
  moreover have "2 * T \<le> Q + 1" using two by (simp add: Q_def)
  ultimately have EE: "E * E \<le> Q * (1 + 1 / 2 ^ 22 + 1 / 2 ^ 44) + 1 / 2 ^ 108"
    using Q0 by (simp add: algebra_simps)
  have "x2 * x2 = \<bar>x2\<bar> * \<bar>x2\<bar>" by simp
  also have "\<dots> \<le> (mx * E) * (mx * E)"
    using B unfolding E_def by (intro mult_mono) (simp_all add: mx0 T0)
  also have "\<dots> = mx * mx * (E * E)" by simp
  also have "\<dots> \<le> mx * mx * (Q * (1 + 1 / 2 ^ 22 + 1 / 2 ^ 44) + 1 / 2 ^ 108)"
    using EE by (intro mult_left_mono) simp_all
  finally show "x2 * x2 \<le> mx * mx * (t * t * (1 + 1 / 2 ^ 22 + 1 / 2 ^ 44) + 1 / 2 ^ 108)"
    by (simp add: Q_def TT)
qed


lemma round32_zero: "round32 0 = Finite 0"
  using round32_finite [of 0] by (simp add: fl32_zero)

lemma sqrt_le_scaled:
  fixes s mx k :: real
  assumes "s \<le> mx * mx * k" and "0 \<le> mx" and "k \<le> (1 + 1 / 2 ^ 21) * (1 + 1 / 2 ^ 21)"
  shows "sqrt s \<le> mx * (1 + 1 / 2 ^ 21)"
proof -
  have "mx * mx * k \<le> mx * mx * ((1 + 1 / 2 ^ 21) * (1 + 1 / 2 ^ 21))"
    using assms(3) by (intro mult_left_mono) simp_all
  then have "s \<le> (mx * (1 + 1 / 2 ^ 21))^2"
    using assms(1) by (simp add: power2_eq_square algebra_simps)
  moreover have "0 \<le> mx * (1 + 1 / 2 ^ 21)" using assms(2) by simp
  ultimately show ?thesis by (intro real_le_lsqrt) simp_all
qed

text \<open>When the squared magnitude overflows, the magnitude is infinite, the quotients are
  zero and the vector is set to zero.\<close>

lemma vec3_limit_f32_overflow:
  assumes "vec3_mag_f32 \<lparr>xf = Finite a, yf = Finite b, zf = Finite c\<rparr> = PlusInf"
  shows "vec3_limit_f32 \<lparr>xf = Finite a, yf = Finite b, zf = Finite c\<rparr> (Finite mx)
         = \<lparr>xf = Finite 0, yf = Finite 0, zf = Finite 0\<rparr>"
  using assms
  by (simp add: vec3_limit_f32_def vec3_normalize_f32_def vec3_div_f32_def vec3_mult_f32_def
        round32_zero Let_def)

text \<open>The clamp in binary32: the result has finite components, and its exact length is
  at most the bound, up to the rounding of the five operations on every component.\<close>

lemma vec3_limit_f32_bound:
  fixes a b c mx :: real
  assumes mx: "1 / 2 ^ 40 \<le> mx" "mx \<le> 2 ^ 40"
  defines "v \<equiv> \<lparr>xf = Finite a, yf = Finite b, zf = Finite c\<rparr>"
  shows "\<exists>l. exact_length (vec3_limit_f32 v (Finite mx)) = Some l \<and> l \<le> mx * (1 + 1 / 2 ^ 21)"
proof -
  define S where "S = f32_add (f32_add (f32_mul (Finite a) (Finite a)) (f32_mul (Finite b) (Finite b)))
                       (f32_mul (Finite c) (Finite c))"
  define s where "s = a * a + b * b + c * c"
  have mx0: "0 < mx" using mx(1) by (rule less_le_trans [rotated]) simp
  have mag: "vec3_mag_f32 v = f32_sqrt S" by (simp add: vec3_mag_f32_def v_def S_def)
  have Sc: "S = PlusInf
       \<or> (\<exists>S0. S = Finite S0 \<and> 0 \<le> S0 \<and> s * (1 - 1 / 2 ^ 24) ^ 3 - 5 / 2 ^ 150 \<le> S0)"
    unfolding S_def s_def by (rule mag_sq_bound)
  have "vec3_mag_f32 v = PlusInf
       \<or> (\<exists>S0. 0 \<le> S0 \<and> s * (1 - 1 / 2 ^ 24) ^ 3 - 5 / 2 ^ 150 \<le> S0
                \<and> vec3_mag_f32 v = Finite (fl32 (sqrt S0)))"
  proof (cases "S = PlusInf")
    case True
    then show ?thesis by (simp add: mag)
  next
    case False
    with Sc obtain S0 where S0: "S = Finite S0" "0 \<le> S0"
      "s * (1 - 1 / 2 ^ 24) ^ 3 - 5 / 2 ^ 150 \<le> S0"
      by blast
    have "f32_sqrt S = round32 (sqrt S0)" using S0(1,2) by simp
    moreover have "round32 (sqrt S0) = PlusInf \<or> round32 (sqrt S0) = Finite (fl32 (sqrt S0))"
      using S0(2) by (intro round32_nonneg) simp
    ultimately show ?thesis using S0(2,3) mag by auto
  qed
  then consider (inf) "vec3_mag_f32 v = PlusInf"
    | (fin) S0 where "0 \<le> S0" "s * (1 - 1 / 2 ^ 24) ^ 3 - 5 / 2 ^ 150 \<le> S0"
        "vec3_mag_f32 v = Finite (fl32 (sqrt S0))"
    by blast
  then show ?thesis
  proof cases
    case inf
    have "vec3_limit_f32 v (Finite mx) = \<lparr>xf = Finite 0, yf = Finite 0, zf = Finite 0\<rparr>"
      using inf unfolding v_def by (rule vec3_limit_f32_overflow)
    then show ?thesis using mx0 by (simp add: exact_length_def)
  next
    case fin
    define m where "m = fl32 (sqrt S0)"
    have magm: "vec3_mag_f32 v = Finite m" using fin(3) by (simp add: m_def)
    show ?thesis
    proof (cases "mx < m")
      case False
      then have "fl32 (sqrt S0) \<le> mx" by (simp add: m_def)
      from length_bound [OF fin(1) fin(2) this mx(1)]
      have "s \<le> mx * mx * (1 + 1 / 2 ^ 21)" .
      moreover have "0 \<le> mx" using mx0 by simp
      moreover have "(1::real) + 1 / 2 ^ 21 \<le> (1 + 1 / 2 ^ 21) * (1 + 1 / 2 ^ 21)" by simp
      ultimately have "sqrt s \<le> mx * (1 + 1 / 2 ^ 21)" by (rule sqrt_le_scaled)
      moreover have "vec3_limit_f32 v (Finite mx) = v"
        using False magm by (simp add: vec3_limit_f32_def Let_def)
      ultimately show ?thesis by (simp add: exact_length_def v_def s_def)
    next
      case True
      then have m0: "0 < m" and mlow: "1 / 2 ^ 40 \<le> m" using mx0 mx(1) by simp_all
      have "fl32 (sqrt S0) \<le> m" by (simp add: m_def)
      from length_bound [OF fin(1) fin(2) this mlow]
      have sm: "s \<le> m * m * (1 + 1 / 2 ^ 21)" .
      define ta where "ta = a / m"
      define tb where "tb = b / m"
      define tc where "tc = c / m"
      have "ta * ta + tb * tb + tc * tc = s / (m * m)"
        by (simp add: ta_def tb_def tc_def s_def add_divide_distrib)
      also have "\<dots> \<le> 1 + 1 / 2 ^ 21"
        using sm m0 by (simp add: pos_divide_le_eq algebra_simps)
      finally have T: "ta * ta + tb * tb + tc * tc \<le> 1 + 1 / 2 ^ 21" .
      have nn: "0 \<le> ta * ta" "0 \<le> tb * tb" "0 \<le> tc * tc" by simp_all
      have k: "(1::real) + 1 / 2 ^ 21 \<le> 4" by simp
      have t4: "ta * ta \<le> 4" "tb * tb \<le> 4" "tc * tc \<le> 4"
      proof -
        show "ta * ta \<le> 4" using T nn k by linarith
        show "tb * tb \<le> 4" using T nn k by linarith
        show "tc * tc \<le> 4" using T nn k by linarith
      qed
      define xa where "xa = fl32 (fl32 ta * mx)"
      define xb where "xb = fl32 (fl32 tb * mx)"
      define xc where "xc = fl32 (fl32 tc * mx)"
      note A = clamp_component [OF t4(1) mx, folded xa_def]
      note B = clamp_component [OF t4(2) mx, folded xb_def]
      note C = clamp_component [OF t4(3) mx, folded xc_def]
      have lim: "vec3_limit_f32 v (Finite mx) = \<lparr>xf = Finite xa, yf = Finite xb, zf = Finite xc\<rparr>"
        using True magm m0 A(1,2) B(1,2) C(1,2)
        by (simp add: vec3_limit_f32_def vec3_normalize_f32_def vec3_div_f32_def
              vec3_mult_f32_def v_def Let_def ta_def tb_def tc_def)
      define Q where "Q = ta * ta + tb * tb + tc * tc"
      have Q: "0 \<le> Q" "Q \<le> 1 + 1 / 2 ^ 21" using T nn by (simp_all add: Q_def)
      define K where "K = Q * (1 + 1 / 2 ^ 22 + 1 / 2 ^ 44) + 3 / 2 ^ 108"
      have "xa * xa + xb * xb + xc * xc
            \<le> mx * mx * (ta * ta * (1 + 1 / 2 ^ 22 + 1 / 2 ^ 44) + 1 / 2 ^ 108)
              + mx * mx * (tb * tb * (1 + 1 / 2 ^ 22 + 1 / 2 ^ 44) + 1 / 2 ^ 108)
              + mx * mx * (tc * tc * (1 + 1 / 2 ^ 22 + 1 / 2 ^ 44) + 1 / 2 ^ 108)"
        using A(3) B(3) C(3) by linarith
      also have "\<dots> = mx * mx * K"
        by (simp add: Q_def K_def algebra_simps)
      finally have le: "xa * xa + xb * xb + xc * xc \<le> mx * mx * K" .
      have Kb: "K \<le> (1 + 1 / 2 ^ 21) * (1 + 1 / 2 ^ 21)"
        using Q by (simp add: K_def)
      have "0 \<le> mx" using mx0 by simp
      with le have "sqrt (xa * xa + xb * xb + xc * xc) \<le> mx * (1 + 1 / 2 ^ 21)"
        using Kb by (rule sqrt_le_scaled)
      then show ?thesis using lim by (simp add: exact_length_def)
    qed
  qed
qed


lemma velocity_f32_update:
  "velocity_f32 (particle_update_f32 p)
   = vec3_limit_f32 (vec3_add_f32 (velocity_f32 p) (acceleration_f32 p)) (max_speed_f32 p)"
  by (simp add: particle_update_f32_def Let_def)

text \<open>
  C3, amended: for every particle whose \<open>max_speed\<close> is between \<open>2^-40\<close> and \<open>2^40\<close> (the
  program sets 4) and every accumulated acceleration for which the sum velocity +
  acceleration is finite in binary32, the velocity after \<open>particle_update\<close> has finite
  components and its exact length is at most \<open>max_speed * (1 + 2^-21)\<close>; \<open>max_speed\<close> itself
  is not changed. This includes the forces whose square overflows: the magnitude is then
  infinite and the velocity becomes zero.
\<close>

theorem particle_update_f32_speed_bound:
  assumes sum: "vec3_add_f32 (velocity_f32 p) (acceleration_f32 p)
                = \<lparr>xf = Finite a, yf = Finite b, zf = Finite c\<rparr>"
    and ms: "max_speed_f32 p = Finite mx" and mx: "1 / 2 ^ 40 \<le> mx" "mx \<le> 2 ^ 40"
  shows "(\<exists>l. exact_length (velocity_f32 (particle_update_f32 p)) = Some l
             \<and> l \<le> mx * (1 + 1 / 2 ^ 21))
       \<and> max_speed_f32 (particle_update_f32 p) = Finite mx"
proof -
  have "max_speed_f32 (particle_update_f32 p) = Finite mx"
    using ms by (simp add: particle_update_f32_def Let_def)
  moreover have "\<exists>l. exact_length (velocity_f32 (particle_update_f32 p)) = Some l
                   \<and> l \<le> mx * (1 + 1 / 2 ^ 21)"
    unfolding velocity_f32_update sum ms using mx by (rule vec3_limit_f32_bound)
  ultimately show ?thesis by simp
qed

lemma pushed_sum:
  "vec3_add_f32 (velocity_f32 pushed) (acceleration_f32 pushed)
   = \<lparr>xf = Finite 3000001, yf = Finite (- 3999998), zf = Finite 12000002\<rparr>"
  by code_simp

theorem particle_update_f32_speed_bound_witness:
  "vec3_add_f32 (velocity_f32 pushed) (acceleration_f32 pushed)
   = \<lparr>xf = Finite 3000001, yf = Finite (- 3999998), zf = Finite 12000002\<rparr>
   \<and> max_speed_f32 pushed = Finite 4 \<and> (1 :: real) / 2 ^ 40 \<le> 4 \<and> (4 :: real) \<le> 2 ^ 40
   \<and> (\<exists>l. exact_length (velocity_f32 (particle_update_f32 pushed)) = Some l
           \<and> l \<le> 4 * (1 + 1 / 2 ^ 21))
   \<and> max_speed_f32 (particle_update_f32 pushed) = Finite 4"
proof -
  have ms: "max_speed_f32 pushed = Finite 4" by (simp add: pushed_def)
  have b: "(1 :: real) / 2 ^ 40 \<le> 4" "(4 :: real) \<le> 2 ^ 40" by simp_all
  from particle_update_f32_speed_bound [OF pushed_sum ms b]
  show ?thesis using pushed_sum ms b by simp
qed

text \<open>A force of \<open>2^68\<close>: the squared magnitude overflows and the particle stops.\<close>

lemma overdriven_stops:
  "velocity_f32 (particle_update_f32 overdriven)
   = \<lparr>xf = Finite 0, yf = Finite 0, zf = Finite 0\<rparr>"
proof -
  have s: "vec3_add_f32 (velocity_f32 overdriven) (acceleration_f32 overdriven)
           = \<lparr>xf = Finite (2 ^ 68), yf = Finite 2, zf = Finite 2\<rparr>"
    by code_simp
  have "f32_add (f32_add (f32_mul (Finite (2 ^ 68)) (Finite (2 ^ 68)))
                         (f32_mul (Finite 2) (Finite 2)))
                (f32_mul (Finite 2) (Finite 2)) = PlusInf"
    by code_simp
  then have m: "vec3_mag_f32 \<lparr>xf = Finite (2 ^ 68), yf = Finite 2, zf = Finite 2\<rparr> = PlusInf"
    by (simp add: vec3_mag_f32_def)
  have ms: "max_speed_f32 overdriven = Finite 4" by (simp add: overdriven_def)
  show ?thesis
    unfolding velocity_f32_update s ms using m by (rule vec3_limit_f32_overflow)
qed


section \<open>A velocity above the speed limit\<close>

text \<open>The rounding of a number whose binade and nearest multiple of the unit are known.\<close>

lemma fl32_eqI:
  assumes e: "- 126 \<le> e" and lo: "2 powi e \<le> \<bar>x\<bar>" and hi: "\<bar>x\<bar> < 2 powi (e + 1)"
    and k1: "(of_int k - 1 / 2) * 2 powi (e - 23) < x"
    and k2: "x < (of_int k + 1 / 2) * 2 powi (e - 23)"
  shows "fl32 x = of_int k * 2 powi (e - 23)"
proof -
  have ex: "exponent32 x = e" using lo hi e by (rule exponent32_eqI)
  have u: "ulp32 x = 2 powi (e - 23)" by (simp add: ulp32_def ex)
  have p: "(0::real) < 2 powi (e - 23)" by simp
  have "of_int k - 1 / 2 < x / 2 powi (e - 23)" using k1 p by (simp add: pos_less_divide_eq)
  moreover have "x / 2 powi (e - 23) < of_int k + 1 / 2" using k2 p by (simp add: pos_divide_less_eq)
  ultimately have "round_even (x / 2 powi (e - 23)) = k" by (rule round_even_eqI)
  then show ?thesis by (simp add: fl32_def u)
qed

lemma sqrt_122: "round32 (sqrt 122) = Finite (2895475 / 262144)"
proof -
  have lo: "8 \<le> sqrt 122" by (rule real_le_rsqrt) simp
  have hi: "sqrt 122 < 16" by (rule real_less_lsqrt) simp_all
  have k1: "(11581900 - 1 / 2) / 1048576 < sqrt 122" by (rule real_less_rsqrt) (simp add: power2_eq_square)
  have k2: "sqrt 122 < (11581900 + 1 / 2) / 1048576" by (rule real_less_lsqrt) (simp_all add: power2_eq_square)
  have "fl32 (sqrt 122) = of_int 11581900 * 2 powi (3 - 23)"
    using lo hi k1 k2 by (intro fl32_eqI) (simp_all add: power_int_minus)
  then have v: "fl32 (sqrt 122) = 2895475 / 262144" by (simp add: power_int_minus)
  show ?thesis using v by (simp add: round32_def Let_def)
qed

lemma sqrt_16: "round32 (sqrt (4194305 / 262144)) = Finite (8388609 / 2097152)"
proof -
  define x :: real where "x = 4194305 / 262144"
  have lo: "4 \<le> sqrt x" by (rule real_le_rsqrt) (simp add: x_def)
  have hi: "sqrt x < 8" by (rule real_less_lsqrt) (simp_all add: x_def)
  have k1: "(8388609 - 1 / 2) / 2097152 < sqrt x"
    by (rule real_less_rsqrt) (simp add: power2_eq_square x_def)
  have k2: "sqrt x < (8388609 + 1 / 2) / 2097152"
    by (rule real_less_lsqrt) (simp_all add: power2_eq_square x_def)
  have "fl32 (sqrt x) = of_int 8388609 * 2 powi (2 - 23)"
    using lo hi k1 k2 by (intro fl32_eqI) (simp_all add: power_int_minus)
  then have v: "fl32 (sqrt x) = 8388609 / 2097152" by (simp add: power_int_minus)
  show ?thesis using v unfolding x_def by (simp add: round32_def Let_def)
qed

lemma slanted_limit:
  "vec3_limit_f32 \<lparr>xf = Finite (- 3), yf = Finite (- 8), zf = Finite (- 7)\<rparr> (Finite 4)
   = \<lparr>xf = Finite (- 9113627 / 8388608), yf = Finite (- 12151503 / 4194304),
      zf = Finite (- 10632565 / 4194304)\<rparr>"
proof -
  have "f32_add (f32_add (f32_mul (Finite (- 3)) (Finite (- 3)))
                         (f32_mul (Finite (- 8)) (Finite (- 8))))
                (f32_mul (Finite (- 7)) (Finite (- 7))) = Finite 122"
    by code_simp
  then have m: "vec3_mag_f32 \<lparr>xf = Finite (- 3), yf = Finite (- 8), zf = Finite (- 7)\<rparr>
                = Finite (2895475 / 262144)"
    by (simp add: vec3_mag_f32_def sqrt_122)
  have d: "vec3_div_f32 \<lparr>xf = Finite (- 3), yf = Finite (- 8), zf = Finite (- 7)\<rparr>
             (Finite (2895475 / 262144))
           = \<lparr>xf = Finite (- 9113627 / 33554432), yf = Finite (- 12151503 / 16777216),
              zf = Finite (- 10632565 / 16777216)\<rparr>"
    by code_simp
  have t: "vec3_mult_f32 \<lparr>xf = Finite (- 9113627 / 33554432), yf = Finite (- 12151503 / 16777216),
              zf = Finite (- 10632565 / 16777216)\<rparr> (Finite 4)
           = \<lparr>xf = Finite (- 9113627 / 8388608), yf = Finite (- 12151503 / 4194304),
              zf = Finite (- 10632565 / 4194304)\<rparr>"
    by code_simp
  have l: "f32_less (Finite 4) (Finite (2895475 / 262144))"
    "f32_less (Finite 0) (Finite (2895475 / 262144))"
    by simp_all
  show ?thesis
    by (simp only: vec3_limit_f32_def vec3_normalize_f32_def Let_def m l if_True d t)
qed

lemma slanted_mag:
  "vec3_mag_f32 \<lparr>xf = Finite (- 9113627 / 8388608), yf = Finite (- 12151503 / 4194304),
      zf = Finite (- 10632565 / 4194304)\<rparr> = Finite (8388609 / 2097152)"
proof -
  have "f32_add (f32_add (f32_mul (Finite (- 9113627 / 8388608)) (Finite (- 9113627 / 8388608)))
                         (f32_mul (Finite (- 12151503 / 4194304)) (Finite (- 12151503 / 4194304))))
                (f32_mul (Finite (- 10632565 / 4194304)) (Finite (- 10632565 / 4194304)))
        = Finite (4194305 / 262144)"
    by code_simp
  then show ?thesis by (simp add: vec3_mag_f32_def sqrt_16)
qed

text \<open>
  C3, as stated: the magnitude of the velocity is at most \<open>max_speed\<close>. In binary32 the
  rescaled vector can be longer than the bound. With velocity (0, 1, -4), acceleration
  (-3, -9, -3) and \<open>max_speed\<close> 4 the sum is (-3, -8, -7), of squared magnitude 122; the
  magnitude rounds to 2895475 / 2^18; the three quotients, rounded, times 4 have the exact
  squared length 16 + 144805441 / 2^46, and \<open>vec3_mag\<close> itself returns 4 + 2^-21 for them.
\<close>

theorem speed_above_max_speed_counterexample:
  "max_speed_f32 slanted = Finite 4
   \<and> velocity_f32 (particle_update_f32 slanted)
       = \<lparr>xf = Finite (- 9113627 / 2 ^ 23), yf = Finite (- 12151503 / 2 ^ 22),
          zf = Finite (- 10632565 / 2 ^ 22)\<rparr>
   \<and> exact_length (velocity_f32 (particle_update_f32 slanted))
       = Some (sqrt (16 + 144805441 / 2 ^ 46))
   \<and> 4 < sqrt (16 + 144805441 / 2 ^ 46)
   \<and> vec3_mag_f32 (velocity_f32 (particle_update_f32 slanted)) = Finite (4 + 1 / 2 ^ 21)
   \<and> f32_less (max_speed_f32 slanted) (vec3_mag_f32 (velocity_f32 (particle_update_f32 slanted)))"
proof -
  have s: "vec3_add_f32 (velocity_f32 slanted) (acceleration_f32 slanted)
           = \<lparr>xf = Finite (- 3), yf = Finite (- 8), zf = Finite (- 7)\<rparr>"
    by code_simp
  have ms: "max_speed_f32 slanted = Finite 4" by (simp add: slanted_def)
  have v: "velocity_f32 (particle_update_f32 slanted)
           = \<lparr>xf = Finite (- 9113627 / 8388608), yf = Finite (- 12151503 / 4194304),
              zf = Finite (- 10632565 / 4194304)\<rparr>"
    by (simp only: velocity_f32_update s ms slanted_limit)
  have e: "exact_length (velocity_f32 (particle_update_f32 slanted))
           = Some (sqrt (16 + 144805441 / 2 ^ 46))"
    unfolding v by (simp add: exact_length_def)
  have g: "4 < sqrt (16 + 144805441 / 2 ^ 46)" by (rule real_less_rsqrt) simp
  have m: "vec3_mag_f32 (velocity_f32 (particle_update_f32 slanted)) = Finite (4 + 1 / 2 ^ 21)"
    unfolding v slanted_mag by simp
  show ?thesis using ms v e g m by simp
qed

section \<open>Cell coordinates in binary32\<close>

lemma fl32_nonpos: "a \<le> 0 \<Longrightarrow> fl32 a \<le> 0"
proof -
  assume "a \<le> 0"
  then have "a / ulp32 a \<le> of_int 0" using ulp32_pos [of a] by (simp add: divide_le_0_iff)
  then have "round_even (a / ulp32 a) \<le> 0" by (rule round_even_le)
  then show ?thesis using ulp32_pos [of a] by (simp add: fl32_def mult_le_0_iff)
qed

text \<open>A binary32 value is a whole number of units in the last place.\<close>

lemma float_multiple:
  assumes "fl32 x = x"
  shows "\<bar>x\<bar> = of_int \<bar>round_even (x / ulp32 x)\<bar> * ulp32 x"
proof -
  have "\<bar>x\<bar> = \<bar>of_int (round_even (x / ulp32 x)) * ulp32 x\<bar>"
    using assms by (simp add: fl32_def)
  then show ?thesis using ulp32_pos [of x] by (simp add: abs_mult)
qed

lemma exponent32_normal:
  assumes "- 126 < exponent32 a"
  shows "2 powi (exponent32 a) \<le> \<bar>a\<bar>"
proof (rule exponent32_lower, rule ccontr)
  assume "\<not> 2 powi (- 126) \<le> \<bar>a\<bar>"
  then have "exponent32 a = - 126" by (intro exponent32_small) simp
  then show False using assms by simp
qed

lemma exponent32_mono:
  assumes "\<bar>x\<bar> \<le> \<bar>c\<bar>"
  shows "exponent32 x \<le> exponent32 c"
proof (rule ccontr)
  assume "\<not> exponent32 x \<le> exponent32 c"
  then have lt: "exponent32 c + 1 \<le> exponent32 x" by simp
  then have "- 126 < exponent32 x" using exponent32_ge [of c] by linarith
  then have "2 powi (exponent32 x) \<le> \<bar>x\<bar>" by (rule exponent32_normal)
  moreover have "(2::real) powi (exponent32 c + 1) \<le> 2 powi (exponent32 x)"
    using lt by (intro power_int_increasing) simp_all
  ultimately show False using exponent32_upper [of c] assms by linarith
qed

text \<open>Below a binary32 value there is no other one within a relative distance of
  \<open>2^-24\<close>.\<close>

lemma float_gap:
  assumes fx: "fl32 x = x" and fc: "fl32 c = c" and lt: "\<bar>x\<bar> < \<bar>c\<bar>"
  shows "\<bar>x\<bar> \<le> \<bar>c\<bar> * (1 - 1 / 2 ^ 24)"
proof -
  define ex where "ex = exponent32 x"
  define ec where "ec = exponent32 c"
  define kx where "kx = \<bar>round_even (x / ulp32 x)\<bar>"
  define kc where "kc = \<bar>round_even (c / ulp32 c)\<bar>"
  have x: "\<bar>x\<bar> = of_int kx * 2 powi (ex - 23)"
    using float_multiple [OF fx] by (simp add: kx_def ex_def ulp32_def)
  have c: "\<bar>c\<bar> = of_int kc * 2 powi (ec - 23)"
    using float_multiple [OF fc] by (simp add: kc_def ec_def ulp32_def)
  have le: "ex \<le> ec" unfolding ex_def ec_def using lt by (intro exponent32_mono) simp
  have ux: "\<bar>x\<bar> < 2 powi (ex + 1)" unfolding ex_def by (rule exponent32_upper)
  have uc: "\<bar>c\<bar> < 2 powi (ec + 1)" unfolding ec_def by (rule exponent32_upper)
  have p24: "(2::real) powi (e + 1) = 2 ^ 24 * 2 powi (e - 23)" for e :: int
  proof -
    have "e + 1 = 24 + (e - 23)" by simp
    then have "(2::real) powi (e + 1) = 2 powi (24 + (e - 23))" by (rule arg_cong)
    also have "\<dots> = 2 powi 24 * 2 powi (e - 23)" by (rule power_int_add) simp
    finally show ?thesis by simp
  qed
  show ?thesis
  proof (cases "ex = ec")
    case True
    define s where "s = (2::real) powi (ec - 23)"
    have s: "0 < s" by (simp add: s_def)
    have "of_int kx * s < of_int kc * s" using lt x c True by (simp add: s_def)
    then have "kx < kc" using s by simp
    then have "kx + 1 \<le> kc" by simp
    then have "(of_int (kx + 1) :: real) \<le> of_int kc" by (simp only: of_int_le_iff)
    then have "(of_int kx + 1) * s \<le> of_int kc * s"
      using s by (intro mult_right_mono) simp_all
    then have "\<bar>x\<bar> + s \<le> \<bar>c\<bar>" using x c True by (simp add: s_def algebra_simps)
    moreover have "\<bar>c\<bar> < 2 ^ 24 * s" using uc p24 [of ec] by (simp add: s_def)
    ultimately show ?thesis by (simp add: algebra_simps)
  next
    case False
    then have lt': "ex + 1 \<le> ec" using le by simp
    define s where "s = (2::real) powi (ex - 23)"
    have s: "0 < s" by (simp add: s_def)
    have "of_int kx * s < 2 ^ 24 * s" using ux x p24 [of ex] by (simp add: s_def)
    then have "(of_int kx :: real) < 2 ^ 24" using s by simp
    then have "kx < 2 ^ 24" by simp
    then have "kx \<le> 16777215" by simp
    then have "(of_int kx :: real) \<le> of_int 16777215" by (simp only: of_int_le_iff)
    then have "(of_int kx :: real) \<le> 2 ^ 24 - 1" by simp
    then have "of_int kx * s \<le> (2 ^ 24 - 1) * s" using s by (intro mult_right_mono) simp_all
    then have a: "\<bar>x\<bar> \<le> 2 powi (ex + 1) * (1 - 1 / 2 ^ 24)"
      using x p24 [of ex] by (simp add: s_def algebra_simps)
    have "- 126 < ec" using lt' exponent32_ge [of x] by (simp add: ex_def)
    then have "2 powi ec \<le> \<bar>c\<bar>" unfolding ec_def by (rule exponent32_normal)
    moreover have "(2::real) powi (ex + 1) \<le> 2 powi ec"
      using lt' by (intro power_int_increasing) simp_all
    ultimately have "2 powi (ex + 1) \<le> \<bar>c\<bar>" by linarith
    then have "2 powi (ex + 1) * (1 - 1 / 2 ^ 24) \<le> \<bar>c\<bar> * (1 - 1 / 2 ^ 24)"
      by (intro mult_right_mono) simp_all
    then show ?thesis using a by linarith
  qed
qed


text \<open>Rounding does not cross a point of the grid of the binade.\<close>

lemma fl32_ge_grid: "of_int n * ulp32 q \<le> q \<Longrightarrow> of_int n * ulp32 q \<le> fl32 q"
proof -
  assume "of_int n * ulp32 q \<le> q"
  then have "of_int n \<le> q / ulp32 q" using ulp32_pos [of q] by (simp add: pos_le_divide_eq)
  then have "n \<le> round_even (q / ulp32 q)" by (rule round_even_ge)
  then have "(of_int n :: real) \<le> of_int (round_even (q / ulp32 q))" by (simp only: of_int_le_iff)
  then show ?thesis unfolding fl32_def using ulp32_pos [of q] by (intro mult_right_mono) simp_all
qed

lemma fl32_le_grid: "q \<le> of_int n * ulp32 q \<Longrightarrow> fl32 q \<le> of_int n * ulp32 q"
proof -
  assume "q \<le> of_int n * ulp32 q"
  then have "q / ulp32 q \<le> of_int n" using ulp32_pos [of q] by (simp add: pos_divide_le_eq)
  then have "round_even (q / ulp32 q) \<le> n" by (rule round_even_le)
  then have "(of_int (round_even (q / ulp32 q)) :: real) \<le> of_int n" by (simp only: of_int_le_iff)
  then show ?thesis unfolding fl32_def using ulp32_pos [of q] by (intro mult_right_mono) simp_all
qed

lemma ulp32_times: "2 ^ 24 * ulp32 q = 2 powi (exponent32 q + 1)"
proof -
  have "exponent32 q + 1 = 24 + (exponent32 q - 23)" by simp
  then have "(2::real) powi (exponent32 q + 1) = 2 powi (24 + (exponent32 q - 23))"
    by (rule arg_cong)
  also have "\<dots> = 2 powi 24 * 2 powi (exponent32 q - 23)" by (rule power_int_add) simp
  finally show ?thesis by (simp add: ulp32_def)
qed

lemma ulp32_times': "16777216 * ulp32 q = 2 powi (exponent32 q + 1)"
  using ulp32_times [of q] by simp

lemma ulp32_half: "8388608 * ulp32 q = 2 powi (exponent32 q)"
proof -
  have "exponent32 q = 23 + (exponent32 q - 23)" by simp
  then have "(2::real) powi (exponent32 q) = 2 powi (23 + (exponent32 q - 23))"
    by (rule arg_cong)
  also have "\<dots> = 2 powi 23 * 2 powi (exponent32 q - 23)" by (rule power_int_add) simp
  finally show ?thesis by (simp add: ulp32_def)
qed

lemma exponent32_below_one:
  assumes "\<bar>q\<bar> < 1"
  shows "exponent32 q \<le> - 1"
proof (rule ccontr)
  assume "\<not> exponent32 q \<le> - 1"
  then have e: "0 \<le> exponent32 q" by simp
  then have "2 powi (exponent32 q) \<le> \<bar>q\<bar>" by (intro exponent32_normal) simp
  moreover have "(1::real) \<le> 2 powi (exponent32 q)" using e by (intro one_le_power_int) simp_all
  ultimately show False using assms by linarith
qed

lemma exponent32_above_one:
  assumes "1 \<le> \<bar>q\<bar>"
  shows "0 \<le> exponent32 q"
proof (rule ccontr)
  assume "\<not> 0 \<le> exponent32 q"
  then have "exponent32 q + 1 \<le> 0" by simp
  then have "(2::real) powi (exponent32 q + 1) \<le> 2 powi 0"
    by (intro power_int_increasing) simp_all
  then show False using exponent32_upper [of q] assms by simp
qed

text \<open>A quotient strictly between -1 and 0 of two binary32 values does not round to -1.\<close>

lemma fl32_above_minus_one:
  assumes lo: "- (1 - 1 / 2 ^ 24) \<le> q" and hi: "q \<le> 0"
  shows "- 1 < fl32 q"
proof -
  have "\<bar>q\<bar> < 1" using lo hi by simp
  then have e: "exponent32 q \<le> - 1" by (rule exponent32_below_one)
  have up: "2 ^ 24 * ulp32 q \<le> 1"
  proof -
    have "(2::real) powi (exponent32 q + 1) \<le> 2 powi 0"
      using e by (intro power_int_increasing) simp_all
    then show ?thesis by (simp add: ulp32_times')
  qed
  show ?thesis
  proof (cases "exponent32 q = - 1")
    case True
    then have u: "ulp32 q = 1 / 2 ^ 24" by (simp add: ulp32_def power_int_minus field_simps)
    have "of_int (- 16777215) * ulp32 q \<le> q" using lo by (simp add: u)
    then have "of_int (- 16777215) * ulp32 q \<le> fl32 q" by (rule fl32_ge_grid)
    then show ?thesis by (simp add: u)
  next
    case False
    then have "exponent32 q + 1 \<le> - 1" using e by simp
    then have "(2::real) powi (exponent32 q + 1) \<le> 2 powi (- 1)"
      by (intro power_int_increasing) simp_all
    then have h: "2 ^ 24 * ulp32 q \<le> 1 / 2" by (simp add: ulp32_times' power_int_minus)
    have "\<bar>q\<bar> < 2 ^ 24 * ulp32 q" using exponent32_upper [of q] by (simp add: ulp32_times')
    then have "of_int (- 16777216) * ulp32 q \<le> q" by simp
    then have "of_int (- 16777216) * ulp32 q \<le> fl32 q" by (rule fl32_ge_grid)
    then show ?thesis using h by simp
  qed
qed

text \<open>Rounding does not cross a whole number up to \<open>2^24\<close>.\<close>

lemma fl32_ge_int:
  assumes W: "1 \<le> W" "W \<le> 2 ^ 24" and q: "of_int W \<le> q"
  shows "of_int W \<le> fl32 q"
proof -
  have q1: "1 \<le> \<bar>q\<bar>" using W(1) q by simp
  then have e: "0 \<le> exponent32 q" by (rule exponent32_above_one)
  show ?thesis
  proof (cases "exponent32 q \<le> 23")
    case True
    define k where "k = nat (23 - exponent32 q)"
    have "(2::real) powi (exponent32 q - 23) = 2 powi (- int k)" using True by (simp add: k_def)
    then have u: "ulp32 q = 1 / 2 ^ k" by (simp add: ulp32_def power_int_minus field_simps)
    have "of_int (W * 2 ^ k) * ulp32 q = of_int W" by (simp add: u)
    then have "of_int (W * 2 ^ k) * ulp32 q \<le> q" using q by linarith
    then have "of_int (W * 2 ^ k) * ulp32 q \<le> fl32 q" by (rule fl32_ge_grid)
    then show ?thesis by (simp add: u)
  next
    case False
    then have e24: "24 \<le> exponent32 q" by simp
    have n: "2 powi (exponent32 q) \<le> \<bar>q\<bar>" using e24 by (intro exponent32_normal) simp
    have g: "of_int (2 ^ 23) * ulp32 q = 2 powi (exponent32 q)"
      using ulp32_half [of q] by simp
    have "0 \<le> q" using W(1) q by simp
    then have "of_int (2 ^ 23) * ulp32 q \<le> q" using n g by linarith
    then have "of_int (2 ^ 23) * ulp32 q \<le> fl32 q" by (rule fl32_ge_grid)
    then have "2 powi (exponent32 q) \<le> fl32 q" using g by linarith
    moreover have "(2::real) powi 24 \<le> 2 powi (exponent32 q)"
      using e24 by (intro power_int_increasing) simp_all
    moreover have "(of_int W :: real) \<le> 2 ^ 24" using W(2) by simp
    ultimately show ?thesis by simp
  qed
qed

lemma fl32_le_minus_one:
  assumes q: "q \<le> - 1"
  shows "fl32 q \<le> - 1"
proof -
  have q1: "1 \<le> \<bar>q\<bar>" using q by simp
  then have e: "0 \<le> exponent32 q" by (rule exponent32_above_one)
  show ?thesis
  proof (cases "exponent32 q \<le> 23")
    case True
    define k where "k = nat (23 - exponent32 q)"
    have "(2::real) powi (exponent32 q - 23) = 2 powi (- int k)" using True by (simp add: k_def)
    then have u: "ulp32 q = 1 / 2 ^ k" by (simp add: ulp32_def power_int_minus field_simps)
    have "of_int (- (2 ^ k)) * ulp32 q = - 1" by (simp add: u)
    then have "q \<le> of_int (- (2 ^ k)) * ulp32 q" using q by linarith
    then have "fl32 q \<le> of_int (- (2 ^ k)) * ulp32 q" by (rule fl32_le_grid)
    then show ?thesis by (simp add: u)
  next
    case False
    then have e24: "24 \<le> exponent32 q" by simp
    have n: "2 powi (exponent32 q) \<le> \<bar>q\<bar>" using e24 by (intro exponent32_normal) simp
    have g: "of_int (- (2 ^ 23)) * ulp32 q = - (2 powi (exponent32 q))"
      using ulp32_half [of q] by simp
    have "q \<le> 0" using q by simp
    then have "q \<le> of_int (- (2 ^ 23)) * ulp32 q" using n g by linarith
    then have "fl32 q \<le> of_int (- (2 ^ 23)) * ulp32 q" by (rule fl32_le_grid)
    then have "fl32 q \<le> - (2 powi (exponent32 q))" using g by linarith
    moreover have "(1::real) \<le> 2 powi (exponent32 q)"
      using e by (intro one_le_power_int) simp_all
    ultimately show ?thesis by simp
  qed
qed

lemma fl32_below_int:
  assumes W: "1 \<le> W" and q: "0 \<le> q" "q < of_int W * (1 - 1 / 2 ^ 23)"
  shows "fl32 q < of_int W"
proof -
  have "fl32 q \<le> q * (1 + 1 / 2 ^ 24) + 1 / 2 ^ 150" using q(1) by (rule fl32_upper)
  moreover have "(1::real) \<le> of_int W" using W by simp
  ultimately show ?thesis using q(2) by (simp add: algebra_simps)
qed


text \<open>One axis of \<open>get_grid_coords\<close>: the quotient of the position by the cell size,
  rounded, then truncated.\<close>

lemma round32_small: "\<bar>fl32 q\<bar> < 2 ^ 128 \<Longrightarrow> round32 q = Finite (fl32 q)"
  by (simp add: round32_def Let_def abs_less_iff not_le)

lemma axis_zero_f32:
  assumes x: "is_float32 x" and cs: "is_float32 cs" and lo: "- cs < x" and hi: "x < 0"
  shows "float_to_int_f32 (f32_div (Finite x) (Finite cs)) = Inr 0"
proof -
  have cs0: "0 < cs" using lo hi by simp
  have "\<bar>x\<bar> < \<bar>cs\<bar>" using lo hi by simp
  then have "\<bar>x\<bar> \<le> \<bar>cs\<bar> * (1 - 1 / 2 ^ 24)"
    using x cs by (intro float_gap) (simp_all add: is_float32_def)
  moreover have "\<bar>x\<bar> = - x" "\<bar>cs\<bar> = cs" using hi cs0 by simp_all
  ultimately have "- x \<le> (1 - 1 / 2 ^ 24) * cs" by (simp only: mult.commute)
  then have "(- x) / cs \<le> 1 - 1 / 2 ^ 24" using cs0 by (simp only: pos_divide_le_eq)
  moreover have "(- x) / cs = - (x / cs)" by simp
  ultimately have q: "- (1 - 1 / 2 ^ 24) \<le> x / cs" by linarith
  have q0: "x / cs \<le> 0" using hi cs0 by (simp add: divide_le_0_iff)
  have a: "- 1 < fl32 (x / cs)" using q q0 by (rule fl32_above_minus_one)
  have b: "fl32 (x / cs) \<le> 0" using q0 by (rule fl32_nonpos)
  have "round32 (x / cs) = Finite (fl32 (x / cs))" using a b by (intro round32_small) simp
  moreover have "\<lceil>fl32 (x / cs)\<rceil> = 0" using a b by (simp add: ceiling_eq_iff)
  moreover have "\<lfloor>fl32 (x / cs)\<rfloor> = 0" if "0 \<le> fl32 (x / cs)"
    using that b by simp
  ultimately show ?thesis
    using a b cs0 by (simp add: float_to_int_f32_def float_to_int_def)
qed

lemma axis_inside_f32:
  assumes x: "is_float32 x" and cs: "is_float32 cs" and cs0: "0 < cs"
    and W: "1 \<le> W" "W \<le> 2 ^ 24"
    and lo: "- cs < x" and hi: "x < of_int W * cs * (1 - 1 / 2 ^ 23)"
  shows "\<exists>ga. float_to_int_f32 (f32_div (Finite x) (Finite cs)) = Inr ga \<and> 0 \<le> ga \<and> ga < W"
proof (cases "x < 0")
  case True
  from axis_zero_f32 [OF x cs lo True] show ?thesis using W(1) by simp
next
  case False
  then have q0: "0 \<le> x / cs" using cs0 by simp
  have "x / cs < of_int W * (1 - 1 / 2 ^ 23)"
    using hi cs0 by (simp add: pos_divide_less_eq algebra_simps)
  with W(1) q0 have b: "fl32 (x / cs) < of_int W" by (rule fl32_below_int)
  have a: "0 \<le> fl32 (x / cs)" using q0 by (rule fl32_nonneg)
  have w: "(of_int W :: real) \<le> 2 ^ 24" using W(2) by simp
  have "round32 (x / cs) = Finite (fl32 (x / cs))" using a b w by (intro round32_small) simp
  moreover have "\<lfloor>fl32 (x / cs)\<rfloor> < W" using b by (simp add: floor_less_iff)
  moreover have "0 \<le> \<lfloor>fl32 (x / cs)\<rfloor>" using a by simp
  ultimately show ?thesis
    using a b w cs0 by (simp add: float_to_int_f32_def float_to_int_def)
qed

lemma axis_outside_f32:
  assumes cs0: "0 < cs" and W: "1 \<le> W" "W \<le> 2 ^ 24"
    and f: "float_to_int_f32 (f32_div (Finite x) (Finite cs)) = Inr ga"
    and ga: "0 \<le> ga" "ga < W"
  shows "- cs < x \<and> x < of_int W * cs"
proof -
  define r where "r = fl32 (x / cs)"
  have d: "f32_div (Finite x) (Finite cs) = round32 (x / cs)" using cs0 by simp
  have fin: "round32 (x / cs) = Finite r"
    using f unfolding d by (auto simp: round32_def Let_def float_to_int_f32_def r_def split: if_splits)
  then have t: "float_to_int r = Inr ga" using f d by (simp add: float_to_int_f32_def)
  have lo: "- cs < x"
  proof (rule ccontr)
    assume "\<not> - cs < x"
    then have "x / cs \<le> - 1" using cs0 by (simp add: pos_divide_le_eq)
    then have "r \<le> - 1" unfolding r_def by (rule fl32_le_minus_one)
    then have "ga \<le> - 1" using t by (auto simp: float_to_int_def ceiling_le_iff split: if_splits)
    then show False using ga(1) by simp
  qed
  have hi: "x < of_int W * cs"
  proof (rule ccontr)
    assume "\<not> x < of_int W * cs"
    then have "of_int W \<le> x / cs" using cs0 by (simp add: pos_le_divide_eq)
    with W have "of_int W \<le> r" unfolding r_def by (rule fl32_ge_int)
    moreover have "(1::real) \<le> of_int W" using W(1) by simp
    ultimately have "W \<le> ga" using t by (auto simp: float_to_int_def le_floor_iff split: if_splits)
    then show False using ga(2) by simp
  qed
  show ?thesis using lo hi by simp
qed

section \<open>The grid in binary32 against the grid with unit cells\<close>

lemma float_to_int_range:
  assumes "float_to_int r = Inr k"
  shows "- 2147483649 < (of_int k :: real) \<and> (of_int k :: real) < 2147483648"
proof -
  have r: "- 2147483649 < r" "r < 2147483648"
    and k: "k = (if 0 \<le> r then \<lfloor>r\<rfloor> else \<lceil>r\<rceil>)"
    using assms by (auto simp: float_to_int_def split: if_splits)
  show ?thesis
  proof (cases "0 \<le> r")
    case True
    then have "k = \<lfloor>r\<rfloor>" using k by simp
    then have "0 \<le> k" and "of_int k \<le> r" using True by simp_all
    then show ?thesis using r by simp
  next
    case False
    then have "k = \<lceil>r\<rceil>" using k by simp
    then have "k \<le> 0" and "r \<le> of_int k" using False by (simp_all add: ceiling_le_iff)
    then show ?thesis using r by simp
  qed
qed

lemma float_to_int_of_int:
  assumes "- 2147483649 < (of_int k :: real)" and "(of_int k :: real) < 2147483648"
  shows "float_to_int (of_int k) = Inr k"
  using assms by (simp add: float_to_int_def)

lemma float_to_int_f32_cases:
  "float_to_int_f32 f = Inl FloatToIntUndefined
   \<or> (\<exists>k. float_to_int_f32 f = Inr k \<and> float_to_int (of_int k) = Inr k)"
proof (cases f)
  case (Finite r)
  show ?thesis
  proof (cases "float_to_int r")
    case (Inl e)
    then show ?thesis using Finite by (auto simp: float_to_int_f32_def float_to_int_def split: if_splits)
  next
    case (Inr k)
    from float_to_int_range [OF Inr] have "float_to_int (of_int k) = Inr k"
      by (intro float_to_int_of_int) simp_all
    then show ?thesis using Finite Inr by (simp add: float_to_int_f32_def)
  qed
qed (simp_all add: float_to_int_f32_def)

text \<open>The position with whole-number coordinates has, in unit cells, the cell coordinates
  that the code computes in binary32.\<close>

lemma unit_coords:
  "get_grid_coords (unit_grid g) (unit_position g pos) = get_grid_coords_f32 g pos"
proof -
  define fx where "fx = float_to_int_f32 (f32_div (xf pos) (cell_size_f32 g))"
  define fy where "fy = float_to_int_f32 (f32_div (yf pos) (cell_size_f32 g))"
  define fz where "fz = float_to_int_f32 (f32_div (zf pos) (cell_size_f32 g))"
  have c: "get_grid_coords_f32 g pos
           = (case fx of Inl e \<Rightarrow> Inl e
              | Inr x_out \<Rightarrow> (case fy of Inl e \<Rightarrow> Inl e
                 | Inr y_out \<Rightarrow> (case fz of Inl e \<Rightarrow> Inl e
                    | Inr z_out \<Rightarrow> Inr (x_out, y_out, z_out))))"
    by (simp only: get_grid_coords_f32_def fx_def fy_def fz_def)
  have big: "float_to_int (2 ^ 40) = Inl FloatToIntUndefined" by (simp add: float_to_int_def)
  have bad: "get_grid_coords (unit_grid g) \<lparr>xc = 2 ^ 40, yc = 0, zc = 0\<rparr> = Inl FloatToIntUndefined"
    using big by (simp add: get_grid_coords_def unit_grid_def)
  have good: "get_grid_coords (unit_grid g) \<lparr>xc = of_int a, yc = of_int b, zc = of_int d\<rparr>
              = Inr (a, b, d)"
    if "float_to_int (of_int a) = Inr a" "float_to_int (of_int b) = Inr b"
      "float_to_int (of_int d) = Inr d" for a b d
    using that by (simp add: get_grid_coords_def unit_grid_def)
  consider (x) "fx = Inl FloatToIntUndefined"
    | (y) a where "fx = Inr a" "float_to_int (of_int a) = Inr a" "fy = Inl FloatToIntUndefined"
    | (z) a b where "fx = Inr a" "float_to_int (of_int a) = Inr a"
        "fy = Inr b" "float_to_int (of_int b) = Inr b" "fz = Inl FloatToIntUndefined"
    | (ok) a b d where "fx = Inr a" "float_to_int (of_int a) = Inr a"
        "fy = Inr b" "float_to_int (of_int b) = Inr b"
        "fz = Inr d" "float_to_int (of_int d) = Inr d"
    using float_to_int_f32_cases [of "f32_div (xf pos) (cell_size_f32 g)"]
      float_to_int_f32_cases [of "f32_div (yf pos) (cell_size_f32 g)"]
      float_to_int_f32_cases [of "f32_div (zf pos) (cell_size_f32 g)"]
    unfolding fx_def fy_def fz_def by blast
  then show ?thesis
  proof cases
    case x
    then show ?thesis using bad by (simp add: c unit_position_def)
  next
    case y
    then show ?thesis using bad by (simp add: c unit_position_def)
  next
    case z
    then show ?thesis using bad by (simp add: c unit_position_def)
  next
    case ok
    then show ?thesis using good [OF ok(2) ok(4) ok(6)] by (simp add: c unit_position_def)
  qed
qed

lemma unit_index: "get_cell_index (unit_grid g) gx gy gz = get_cell_index_f32 g gx gy gz"
  by (simp add: get_cell_index_def get_cell_index_f32_def unit_grid_def)

lemma unit_cell_of: "cell_of (unit_grid g) (unit_particle g p) = cell_of_f32 g p"
  by (simp add: cell_of_def cell_of_f32_def unit_particle_def unit_coords unit_index
        cong: sum.case_cong)

lemma unit_convertible:
  "convertible (unit_grid g) (position (unit_particle g p)) = convertible_f32 g (position_f32 p)"
  by (simp add: convertible_def convertible_f32_def unit_particle_def unit_coords)

lemma array_read_map:
  "array_read (map f xs) i = (case array_read xs i of Inl e \<Rightarrow> Inl e | Inr x \<Rightarrow> Inr (f x))"
  by (auto simp: array_read_def nat_less_iff)

lemma unit_particle_cell:
  "particle_cell (unit_grid g) (map (unit_particle g) ps) i = particle_cell_f32 g ps i"
  by (simp add: particle_cell_def particle_cell_f32_def array_read_map unit_particle_def
        unit_coords unit_index split: sum.splits)

lemma unit_count_particle:
  "count_particle (unit_grid g) (map (unit_particle g) ps) = count_particle_f32 g ps"
  by (intro ext) (simp add: count_particle_def count_particle_f32_def unit_particle_cell)

lemma unit_place_particle:
  "place_particle (unit_grid g) (map (unit_particle g) ps) = place_particle_f32 g ps"
  by (intro ext) (simp add: place_particle_def place_particle_f32_def unit_particle_cell)

text \<open>The update in binary32 is the update of the grid with unit cells, with the cell
  size put back.\<close>

lemma unit_update:
  "spatial_grid_update_f32 g ps cnt
   = (case spatial_grid_update (unit_grid g) (map (unit_particle g) ps) cnt of
        Inl e \<Rightarrow> Inl e
      | Inr g' \<Rightarrow> Inr (g\<lparr>particle_indices_f32 := particle_indices g',
                           cell_starts_f32 := cell_starts g',
                           cell_counts_f32 := cell_counts g'\<rparr>))"
  unfolding spatial_grid_update_f32_def spatial_grid_update_def
    unit_count_particle unit_place_particle
  by (simp add: unit_grid_def split: sum.splits prod.splits)


lemma unit_grid_wf: "grid_wf (unit_grid g) = grid_wf_f32 g"
  by (simp add: grid_wf_def grid_wf_f32_def unit_grid_def)

lemma unit_cell_run: "cell_run (unit_grid g) c = cell_run_f32 g c"
  by (simp add: cell_run_def cell_run_f32_def unit_grid_def)

text \<open>After the update, the grid with unit cells holds the particles at their
  whole-number positions; only the three arrays of the grid have changed.\<close>

lemma spatial_grid_update_f32_holds:
  assumes wf: "grid_wf_f32 g" and np: "nat cnt \<le> length ps" and cap: "cnt \<le> num_particles_f32 g"
    and conv: "\<forall>i<nat cnt. convertible_f32 g (position_f32 (ps ! i))"
  shows "\<exists>g'. spatial_grid_update_f32 g ps cnt = Inr g'
           \<and> grid_width_f32 g' = grid_width_f32 g \<and> grid_height_f32 g' = grid_height_f32 g
           \<and> grid_depth_f32 g' = grid_depth_f32 g \<and> cell_size_f32 g' = cell_size_f32 g
           \<and> total_cells_f32 g' = total_cells_f32 g
           \<and> grid_holds (unit_grid g') (map (unit_particle g) ps) (nat cnt)"
proof -
  define sps where "sps = map (unit_particle g) ps"
  have wf': "grid_wf (unit_grid g)" using wf by (simp add: unit_grid_wf)
  have np': "nat cnt \<le> length sps" using np by (simp add: sps_def)
  have cap': "cnt \<le> num_particles (unit_grid g)" using cap by (simp add: unit_grid_def)
  have conv': "\<forall>i<nat cnt. convertible (unit_grid g) (position (sps ! i))"
  proof (intro allI impI)
    fix i assume i: "i < nat cnt"
    then have "sps ! i = unit_particle g (ps ! i)" using np by (simp add: sps_def)
    then show "convertible (unit_grid g) (position (sps ! i))"
      using conv i by (simp add: unit_convertible)
  qed
  from spatial_grid_update_holds [OF wf' np' cap' conv'] obtain g0 where
    u: "spatial_grid_update (unit_grid g) sps cnt = Inr g0"
    and shape: "same_shape g0 (unit_grid g)" and holds: "grid_holds g0 sps (nat cnt)"
    by blast
  define g' where "g' = g\<lparr>particle_indices_f32 := particle_indices g0,
                            cell_starts_f32 := cell_starts g0,
                            cell_counts_f32 := cell_counts g0\<rparr>"
  have r: "spatial_grid_update_f32 g ps cnt = Inr g'"
    using u by (simp add: unit_update sps_def g'_def)
  have "unit_grid g' = g0"
    using shape by (cases g0) (simp add: unit_grid_def same_shape_def g'_def)
  then have "grid_holds (unit_grid g') sps (nat cnt)" using holds by simp
  then show ?thesis using r by (auto simp: g'_def sps_def)
qed

section \<open>The query in binary32\<close>

lemma test_candidate_f32_appends:
  assumes ok: "buffer_ok (nat MAX_NEIGHBORS) st" and room: "room_left st"
    and rd: "array_read (particle_indices_f32 g) (start + int i) = Inr j"
    and j: "0 \<le> j" "j < int (length ps)"
  shows "\<exists>s'. test_candidate_f32 g ps point (f32_mul radius radius) start i st = Inr s'
           \<and> buffer_ok (nat MAX_NEIGHBORS) s'
           \<and> accepted s' = take (nat MAX_NEIGHBORS)
                              (accepted st @ (if in_range_f32 ps point radius j then [j] else []))"
proof (cases st)
  case (Pair buf nc)
  have nc: "0 \<le> nc" "nc < MAX_NEIGHBORS" and lb: "length buf = nat MAX_NEIGHBORS"
    using ok room Pair by (simp_all add: buffer_ok_def room_left_def)
  have other: "array_read ps j = Inr (ps ! nat j)" using j by (simp add: array_read_def)
  show ?thesis
  proof (cases "in_range_f32 ps point radius j")
    case False
    then have "test_candidate_f32 g ps point (f32_mul radius radius) start i st = Inr st"
      using Pair rd other by (simp add: test_candidate_f32_def in_range_f32_def)
    then show ?thesis using ok False by (simp add: accepted_take del: take_append)
  next
    case True
    have wr: "array_write buf nc j = Inr (buf[nat nc := j])"
      using nc lb by (simp add: array_write_def)
    have step: "test_candidate_f32 g ps point (f32_mul radius radius) start i st
                = Inr (buf[nat nc := j], nc + 1)"
      using Pair rd other True wr by (simp add: test_candidate_f32_def in_range_f32_def)
    have ok': "buffer_ok (nat MAX_NEIGHBORS) (buf[nat nc := j], nc + 1)"
      using nc lb by (simp add: buffer_ok_def)
    have "take (nat (nc + 1)) (buf[nat nc := j]) = take (nat nc) buf @ [j]"
      using nc lb by (simp add: nat_add_distrib take_Suc_conv_app_nth)
    moreover have "length (take (nat nc) buf @ [j]) \<le> nat MAX_NEIGHBORS"
      using nc lb by simp
    ultimately have "accepted (buf[nat nc := j], nc + 1)
                     = take (nat MAX_NEIGHBORS) (accepted st @ [j])"
      using Pair by (simp add: accepted_def del: take_append)
    then show ?thesis using step ok' True by (simp del: take_append)
  qed
qed

lemma scan_cell_f32_appends:
  assumes holds: "grid_holds (unit_grid g) sps n" and np: "n \<le> length ps"
    and ok: "buffer_ok (nat MAX_NEIGHBORS) st"
  shows "\<exists>s'. scan_cell_f32 g ps point (f32_mul radius radius) gx gy gz st = Inr s'
           \<and> buffer_ok (nat MAX_NEIGHBORS) s'
           \<and> accepted s' = take (nat MAX_NEIGHBORS)
                  (accepted st @ filter (in_range_f32 ps point radius)
                                        (cell_candidates (unit_grid g) gx gy gz))"
proof (cases "get_cell_index_f32 g gx gy gz < 0")
  case True
  then show ?thesis
    using ok by (simp add: scan_cell_f32_def cell_candidates_def unit_index accepted_take
                   del: take_append)
next
  case False
  define G where "G = unit_grid g"
  define c where "c = nat (get_cell_index_f32 g gx gy gz)"
  define start where "start = cell_starts_f32 g ! c"
  define cnt where "cnt = cell_counts_f32 g ! c"
  have arrays: "cell_starts G = cell_starts_f32 g" "cell_counts G = cell_counts_f32 g"
    "particle_indices G = particle_indices_f32 g" "total_cells G = total_cells_f32 g"
    by (simp_all add: G_def unit_grid_def)
  have holds': "grid_holds G sps n" using holds by (simp add: G_def)
  have wf: "grid_wf G" using holds' by (simp add: grid_holds_def)
  have idx: "get_cell_index_f32 g gx gy gz = int c" using False by (simp add: c_def)
  have idx': "get_cell_index G gx gy gz = int c" using idx by (simp add: G_def unit_index)
  have c: "c < nat (total_cells G)"
    using get_cell_index_range [OF wf, of gx gy gz] idx' by simp
  have rs: "array_read (cell_starts_f32 g) (int c) = Inr start"
    and rc: "array_read (cell_counts_f32 g) (int c) = Inr cnt"
    using wf c arrays by (simp_all add: array_read_def grid_wf_def start_def cnt_def)
  have run: "cell_run G c = map int (filter (\<lambda>i. cell_of G (sps ! i) = int c) [0..<n])"
    and sign: "(start < 0) = (cnt = 0)"
    and fits: "nat start + nat cnt \<le> length (particle_indices_f32 g)"
    and cnt: "cnt = int (length (cell_run G c))"
    using grid_holds_cell [OF holds' c] arrays by (simp_all add: start_def cnt_def)
  have cand: "cell_candidates G gx gy gz = cell_run G c"
    using idx' by (simp add: cell_candidates_def)
  show ?thesis
  proof (cases "start < 0")
    case True
    then have "cell_run G c = []" using sign cnt by simp
    then show ?thesis
      using ok idx rs rc True cand
      by (simp add: scan_cell_f32_def accepted_take G_def del: take_append)
  next
    case nonneg: False
    have elem: "array_read (particle_indices_f32 g) (start + int i) = Inr (cell_run G c ! i)
                \<and> 0 \<le> cell_run G c ! i \<and> cell_run G c ! i < int (length ps)"
      if "i \<in> set [0..<nat cnt]" for i
    proof -
      have i: "i < nat cnt" using that by simp
      then have lt: "nat start + i < length (particle_indices_f32 g)" using fits by simp
      have "cell_run G c ! i = particle_indices_f32 g ! (nat start + i)"
        using i lt arrays by (simp add: cell_run_def start_def cnt_def)
      moreover have "nat (start + int i) = nat start + i"
        using nonneg by (simp add: nat_add_distrib)
      ultimately have r: "array_read (particle_indices_f32 g) (start + int i)
                          = Inr (cell_run G c ! i)"
        using lt nonneg by (simp add: array_read_def)
      have "cell_run G c ! i \<in> set (cell_run G c)" using i cnt by simp
      then obtain p where "cell_run G c ! i = int p" and "p < n" using run by auto
      then show ?thesis using r np by simp
    qed
    have "\<exists>s'. for_loop room_left (test_candidate_f32 g ps point (f32_mul radius radius) start)
                 [0..<nat cnt] st = Inr s'
             \<and> buffer_ok (nat MAX_NEIGHBORS) s'
             \<and> accepted s' = take (nat MAX_NEIGHBORS)
                   (accepted st @ concat (map (\<lambda>i. if in_range_f32 ps point radius (cell_run G c ! i)
                                                   then [cell_run G c ! i] else [])
                                             [0..<nat cnt]))"
      using ok
    proof (rule capped_loop)
      fix i s
      assume "i \<in> set [0..<nat cnt]" and "buffer_ok (nat MAX_NEIGHBORS) s" and "room_left s"
      then show "\<exists>s'. test_candidate_f32 g ps point (f32_mul radius radius) start i s = Inr s'
                  \<and> buffer_ok (nat MAX_NEIGHBORS) s'
                  \<and> accepted s' = take (nat MAX_NEIGHBORS)
                        (accepted s @ (if in_range_f32 ps point radius (cell_run G c ! i)
                                       then [cell_run G c ! i] else []))"
        using elem [of i] by (intro test_candidate_f32_appends) auto
    qed
    moreover have "concat (map (\<lambda>i. if in_range_f32 ps point radius (cell_run G c ! i)
                                     then [cell_run G c ! i] else []) [0..<nat cnt])
                   = filter (in_range_f32 ps point radius) (cell_run G c)"
      using cnt by (simp add: concat_map_if_filter map_nth)
    ultimately show ?thesis
      using idx rs rc nonneg cand by (simp add: scan_cell_f32_def G_def del: take_append)
  qed
qed

text \<open>The whole query in binary32: the candidates of the block that pass the distance
  test as the code evaluates it, in scan order, cut at the capacity.\<close>

lemma query_f32_result:
  assumes holds: "grid_holds (unit_grid g) sps n" and np: "n \<le> length ps"
    and coords: "get_grid_coords_f32 g point = Inr (cx, cy, cz)"
    and lb: "length buf = nat MAX_NEIGHBORS"
  shows "\<exists>buf' nc. spatial_grid_query_neighbors_f32 g ps point radius buf = Inr (buf', nc)
           \<and> 0 \<le> nc \<and> nc \<le> MAX_NEIGHBORS \<and> length buf' = nat MAX_NEIGHBORS
           \<and> take (nat nc) buf'
               = take (nat MAX_NEIGHBORS)
                   (filter (in_range_f32 ps point radius) (candidates (unit_grid g) cx cy cz))"
proof -
  let ?P = "in_range_f32 ps point radius"
  let ?cell = "\<lambda>dz dy dx. scan_cell_f32 g ps point (f32_mul radius radius)
                             (cx + dx) (cy + dy) (cz + dz)"
  let ?F = "\<lambda>dz dy dx. filter ?P (cell_candidates (unit_grid g) (cx + dx) (cy + dy) (cz + dz))"
  have start: "buffer_ok (nat MAX_NEIGHBORS) (buf, 0)"
    using lb by (simp add: buffer_ok_def MAX_NEIGHBORS_def)
  have row: "\<exists>s'. for_loop room_left (?cell dz dy) xs s = Inr s'
               \<and> buffer_ok (nat MAX_NEIGHBORS) s'
               \<and> accepted s' = take (nat MAX_NEIGHBORS)
                     (accepted s @ concat (map (?F dz dy) xs))"
    if "buffer_ok (nat MAX_NEIGHBORS) s" for dz dy xs s
    using that by (rule capped_loop) (rule scan_cell_f32_appends [OF holds np])
  have plane: "\<exists>s'. for_loop room_left (\<lambda>dy. for_loop room_left (?cell dz dy) xs) ys s = Inr s'
               \<and> buffer_ok (nat MAX_NEIGHBORS) s'
               \<and> accepted s' = take (nat MAX_NEIGHBORS)
                     (accepted s @ concat (map (\<lambda>dy. concat (map (?F dz dy) xs)) ys))"
    if "buffer_ok (nat MAX_NEIGHBORS) s" for dz xs ys s
    using that by (rule capped_loop) (rule row)
  have block: "\<exists>s'. for_loop room_left
                   (\<lambda>dz. for_loop room_left (\<lambda>dy. for_loop room_left (?cell dz dy) xs) ys)
                   zs s = Inr s'
               \<and> buffer_ok (nat MAX_NEIGHBORS) s'
               \<and> accepted s' = take (nat MAX_NEIGHBORS)
                     (accepted s @ concat (map (\<lambda>dz. concat (map (\<lambda>dy. concat (map (?F dz dy) xs))
                                                                ys)) zs))"
    if "buffer_ok (nat MAX_NEIGHBORS) s" for xs ys zs s
    using that by (rule capped_loop) (rule plane)
  have flt: "concat (map (\<lambda>dz. concat (map (\<lambda>dy. concat (map (?F dz dy) [- 1, 0, 1]))
                                            [- 1, 0, 1])) [- 1, 0, 1])
             = filter ?P (candidates (unit_grid g) cx cy cz)"
    by (simp add: candidates_def)
  from block [OF start, of "[- 1, 0, 1]" "[- 1, 0, 1]" "[- 1, 0, 1]"] obtain s' where
    run: "for_loop room_left
            (\<lambda>dz. for_loop room_left (\<lambda>dy. for_loop room_left (?cell dz dy) [- 1, 0, 1])
                                       [- 1, 0, 1])
            [- 1, 0, 1] (buf, 0) = Inr s'"
    and ok': "buffer_ok (nat MAX_NEIGHBORS) s'"
    and acc: "accepted s' = take (nat MAX_NEIGHBORS)
                              (filter ?P (candidates (unit_grid g) cx cy cz))"
    unfolding flt by (auto simp: accepted_def)
  have "spatial_grid_query_neighbors_f32 g ps point radius buf = Inr s'"
    using coords run by (simp add: spatial_grid_query_neighbors_f32_def Let_def upto_block)
  then show ?thesis
    using ok' acc by (cases s') (simp add: buffer_ok_def accepted_def)
qed


section \<open>Which positions are inside the grid, in binary32\<close>

lemma index_f32_shape:
  assumes "grid_width_f32 g' = grid_width_f32 g" and "grid_height_f32 g' = grid_height_f32 g"
    and "grid_depth_f32 g' = grid_depth_f32 g"
  shows "get_cell_index_f32 g' gx gy gz = get_cell_index_f32 g gx gy gz"
  by (simp only: get_cell_index_f32_def assms)

lemma coords_f32_shape:
  assumes "cell_size_f32 g' = cell_size_f32 g"
  shows "get_grid_coords_f32 g' pos = get_grid_coords_f32 g pos"
  by (simp only: get_grid_coords_f32_def assms)

lemma unit_cell_of_shape:
  assumes "grid_width_f32 g' = grid_width_f32 g" and "grid_height_f32 g' = grid_height_f32 g"
    and "grid_depth_f32 g' = grid_depth_f32 g"
  shows "cell_of (unit_grid g') q = cell_of (unit_grid g) q"
proof -
  have one: "cell_size (unit_grid h) = 1" for h by (simp add: unit_grid_def)
  have "get_grid_coords (unit_grid g') pos = get_grid_coords (unit_grid g) pos" for pos
    by (simp only: get_grid_coords_def one)
  then show ?thesis
    by (simp only: cell_of_def unit_index index_f32_shape [OF assms])
qed

lemma get_cell_index_f32_inside:
  "(0 \<le> get_cell_index_f32 g gx gy gz)
   = (0 \<le> gx \<and> gx < grid_width_f32 g \<and> 0 \<le> gy \<and> gy < grid_height_f32 g
      \<and> 0 \<le> gz \<and> gz < grid_depth_f32 g)"
  by (auto simp: get_cell_index_f32_def)

text \<open>The coordinates of a position with finite components in a grid with a finite cell
  size.\<close>

lemma coords_f32_finite:
  assumes "cell_size_f32 g = Finite cs"
  shows "(get_grid_coords_f32 g \<lparr>xf = Finite x, yf = Finite y, zf = Finite z\<rparr> = Inr (gx, gy, gz))
         = (float_to_int_f32 (f32_div (Finite x) (Finite cs)) = Inr gx
            \<and> float_to_int_f32 (f32_div (Finite y) (Finite cs)) = Inr gy
            \<and> float_to_int_f32 (f32_div (Finite z) (Finite cs)) = Inr gz)"
  using assms by (auto simp: get_grid_coords_f32_def split: sum.splits)

lemma convertible_f32_coords:
  assumes "convertible_f32 g pos"
  shows "\<exists>gx gy gz. get_grid_coords_f32 g pos = Inr (gx, gy, gz)"
proof (cases "get_grid_coords_f32 g pos")
  case (Inl e)
  then show ?thesis using assms by (simp add: convertible_f32_def)
next
  case (Inr t)
  then show ?thesis by (cases t) auto
qed

lemma in_block_coords:
  assumes "in_block g point pos"
  shows "\<exists>cx cy cz gx gy gz. get_grid_coords_f32 g point = Inr (cx, cy, cz)
           \<and> get_grid_coords_f32 g pos = Inr (gx, gy, gz)
           \<and> \<bar>gx - cx\<bar> \<le> 1 \<and> \<bar>gy - cy\<bar> \<le> 1 \<and> \<bar>gz - cz\<bar> \<le> 1"
proof (cases "get_grid_coords_f32 g point")
  case (Inl e)
  then show ?thesis using assms by (simp add: in_block_def)
next
  case a: (Inr t)
  show ?thesis
  proof (cases "get_grid_coords_f32 g pos")
    case (Inl e)
    then show ?thesis using assms a by (cases t) (simp add: in_block_def)
  next
    case b: (Inr r)
    show ?thesis using assms a b by (cases t; cases r) (simp add: in_block_def)
  qed
qed

text \<open>A particle of the grid is returned by a query from its own or an adjacent cell when
  it passes the distance test and the capacity suffices.\<close>

lemma query_f32_returns:
  assumes holds: "grid_holds (unit_grid g) sps n" and np: "n \<le> length ps"
    and cells: "\<forall>j<n. cell_of (unit_grid g) (sps ! j) = cell_of_f32 g (ps ! j)"
    and i: "i < n" and inside: "0 \<le> cell_of_f32 g (ps ! i)"
    and block: "in_block g point (position_f32 (ps ! i))"
    and range: "in_range_f32 ps point radius (int i)"
    and lb: "length buf = nat MAX_NEIGHBORS"
    and cap: "int (length (filter (\<lambda>j. in_range_f32 ps point radius (int j)) [0..<n]))
                \<le> MAX_NEIGHBORS"
  shows "\<exists>buf' nc. spatial_grid_query_neighbors_f32 g ps point radius buf = Inr (buf', nc)
           \<and> int i \<in> set (take (nat nc) buf')"
proof -
  let ?P = "in_range_f32 ps point radius"
  define G where "G = unit_grid g"
  have holds': "grid_holds G sps n" using holds by (simp add: G_def)
  from in_block_coords [OF block] obtain cx cy cz gx gy gz where
    pc: "get_grid_coords_f32 g point = Inr (cx, cy, cz)"
    and ic: "get_grid_coords_f32 g (position_f32 (ps ! i)) = Inr (gx, gy, gz)"
    and near: "\<bar>gx - cx\<bar> \<le> 1" "\<bar>gy - cy\<bar> \<le> 1" "\<bar>gz - cz\<bar> \<le> 1"
    by blast
  define A where "A = filter ?P (candidates G cx cy cz)"
  from query_f32_result [OF holds np pc lb] obtain buf' nc where
    q: "spatial_grid_query_neighbors_f32 g ps point radius buf = Inr (buf', nc)"
    and t: "take (nat nc) buf' = take (nat MAX_NEIGHBORS) A"
    unfolding A_def G_def by blast
  have ci: "cell_of_f32 g (ps ! i) = get_cell_index G gx gy gz"
    using ic by (simp add: cell_of_f32_def G_def unit_index)
  have d: "gx - cx \<in> {- 1, 0, 1}" "gy - cy \<in> {- 1, 0, 1}" "gz - cz \<in> {- 1, 0, 1}"
    using near by auto
  have "cell_of G (sps ! i) = get_cell_index G (cx + (gx - cx)) (cy + (gy - cy)) (cz + (gz - cz))"
    using cells i ci by (simp add: G_def)
  then have "\<exists>dx\<in>{- 1, 0, 1}. \<exists>dy\<in>{- 1, 0, 1}. \<exists>dz\<in>{- 1, 0, 1}.
               cell_of G (sps ! i) = get_cell_index G (cx + dx) (cy + dy) (cz + dz)"
    using d by blast
  moreover have "0 \<le> cell_of G (sps ! i)" using cells i inside by (simp add: G_def)
  ultimately have "int i \<in> set (candidates G cx cy cz)"
    unfolding candidates_member [OF holds'] using i by blast
  then have iA: "int i \<in> set A" using range by (simp add: A_def)
  have dA: "distinct A"
    unfolding A_def using candidates_distinct [OF holds'] by simp
  have "set A \<subseteq> int ` set (filter (\<lambda>j. ?P (int j)) [0..<n])"
  proof
    fix k assume "k \<in> set A"
    then have "k \<in> set (candidates G cx cy cz)" and p: "?P k" by (simp_all add: A_def)
    then obtain j where "j < n" "k = int j" unfolding candidates_member [OF holds'] by blast
    then show "k \<in> int ` set (filter (\<lambda>j. ?P (int j)) [0..<n])" using p by auto
  qed
  then have "card (set A) \<le> card (int ` set (filter (\<lambda>j. ?P (int j)) [0..<n]))"
    by (intro card_mono) auto
  also have "\<dots> \<le> card (set (filter (\<lambda>j. ?P (int j)) [0..<n]))"
    by (rule card_image_le) simp
  also have "\<dots> \<le> length (filter (\<lambda>j. ?P (int j)) [0..<n])"
    by (rule card_length)
  finally have "int (length A) \<le> MAX_NEIGHBORS"
    using cap dA by (simp add: distinct_card)
  then have "take (nat MAX_NEIGHBORS) A = A" by simp
  then show ?thesis using q t iA by auto
qed

text \<open>
  C10, amended: the cell coordinate is the rounded quotient truncated toward zero, and for
  binary32 positions and a positive binary32 cell size a component strictly between
  \<open>- cell_size\<close> and 0 has coordinate 0. On a grid of 1 to 2^24 cells per axis, a particle
  with every component strictly above \<open>- cell_size\<close> and strictly below
  \<open>dim * cell_size * (1 - 2^-23)\<close> is inside the grid, and a particle inside the grid has
  every component strictly between \<open>- cell_size\<close> and \<open>dim * cell_size\<close>. A particle inside
  the grid is put into the run of its cell by \<open>spatial_grid_update\<close> and is returned by a
  query from its own or an adjacent cell whose distance test it passes, when the capacity
  suffices; a particle outside is in no run.
\<close>

theorem slightly_negative_position_kept:
  assumes wf: "grid_wf_f32 g"
    and cs: "cell_size_f32 g = Finite cs" "is_float32 cs" "0 < cs"
    and dims: "1 \<le> grid_width_f32 g" "grid_width_f32 g \<le> 2 ^ 24"
      "1 \<le> grid_height_f32 g" "grid_height_f32 g \<le> 2 ^ 24"
      "1 \<le> grid_depth_f32 g" "grid_depth_f32 g \<le> 2 ^ 24"
    and np: "nat cnt \<le> length ps" and cap: "cnt \<le> num_particles_f32 g"
    and conv: "\<forall>j<nat cnt. convertible_f32 g (position_f32 (ps ! j))"
    and i: "i < nat cnt"
    and pos: "position_f32 (ps ! i) = \<lparr>xf = Finite x, yf = Finite y, zf = Finite z\<rparr>"
    and fl: "is_float32 x" "is_float32 y" "is_float32 z"
  shows "(- cs < x \<and> x < 0
            \<longrightarrow> (\<exists>gy gz. get_grid_coords_f32 g (position_f32 (ps ! i)) = Inr (0, gy, gz)))
       \<and> (- cs < y \<and> y < 0
            \<longrightarrow> (\<exists>gx gz. get_grid_coords_f32 g (position_f32 (ps ! i)) = Inr (gx, 0, gz)))
       \<and> (- cs < z \<and> z < 0
            \<longrightarrow> (\<exists>gx gy. get_grid_coords_f32 g (position_f32 (ps ! i)) = Inr (gx, gy, 0)))
       \<and> (- cs < x \<and> x < of_int (grid_width_f32 g) * cs * (1 - 1 / 2 ^ 23)
            \<and> - cs < y \<and> y < of_int (grid_height_f32 g) * cs * (1 - 1 / 2 ^ 23)
            \<and> - cs < z \<and> z < of_int (grid_depth_f32 g) * cs * (1 - 1 / 2 ^ 23)
            \<longrightarrow> 0 \<le> cell_of_f32 g (ps ! i))
       \<and> (0 \<le> cell_of_f32 g (ps ! i)
            \<longrightarrow> - cs < x \<and> x < of_int (grid_width_f32 g) * cs
              \<and> - cs < y \<and> y < of_int (grid_height_f32 g) * cs
              \<and> - cs < z \<and> z < of_int (grid_depth_f32 g) * cs)
       \<and> (\<exists>g'. spatial_grid_update_f32 g ps cnt = Inr g'
             \<and> (0 \<le> cell_of_f32 g (ps ! i)
                  \<longrightarrow> int i \<in> set (cell_run_f32 g' (nat (cell_of_f32 g (ps ! i)))))
             \<and> (cell_of_f32 g (ps ! i) < 0
                  \<longrightarrow> (\<forall>c<nat (total_cells_f32 g). int i \<notin> set (cell_run_f32 g' c)))
             \<and> (\<forall>point radius buf.
                   0 \<le> cell_of_f32 g (ps ! i) \<and> in_block g point (position_f32 (ps ! i))
                   \<and> in_range_f32 ps point radius (int i)
                   \<and> length buf = nat MAX_NEIGHBORS
                   \<and> int (length (filter (\<lambda>j. in_range_f32 ps point radius (int j))
                                         [0..<nat cnt]))
                         \<le> MAX_NEIGHBORS
                   \<longrightarrow> (\<exists>buf' nc. spatial_grid_query_neighbors_f32 g' ps point radius buf
                                     = Inr (buf', nc)
                                  \<and> int i \<in> set (take (nat nc) buf'))))"
proof -
  let ?fx = "float_to_int_f32 (f32_div (Finite x) (Finite cs))"
  let ?fy = "float_to_int_f32 (f32_div (Finite y) (Finite cs))"
  let ?fz = "float_to_int_f32 (f32_div (Finite z) (Finite cs))"
  have "convertible_f32 g (position_f32 (ps ! i))" using conv i by simp
  from convertible_f32_coords [OF this] obtain gx gy gz where
    c: "get_grid_coords_f32 g (position_f32 (ps ! i)) = Inr (gx, gy, gz)"
    by blast
  then have f: "?fx = Inr gx" "?fy = Inr gy" "?fz = Inr gz"
    unfolding pos coords_f32_finite [OF cs(1)] by simp_all
  have k: "cell_of_f32 g (ps ! i) = get_cell_index_f32 g gx gy gz"
    using c by (simp add: cell_of_f32_def)
  have A: "(- cs < x \<and> x < 0 \<longrightarrow> gx = 0) \<and> (- cs < y \<and> y < 0 \<longrightarrow> gy = 0)
           \<and> (- cs < z \<and> z < 0 \<longrightarrow> gz = 0)"
    using axis_zero_f32 [OF fl(1) cs(2)] axis_zero_f32 [OF fl(2) cs(2)]
      axis_zero_f32 [OF fl(3) cs(2)] f by auto
  have B: "0 \<le> cell_of_f32 g (ps ! i)"
    if "- cs < x" "x < of_int (grid_width_f32 g) * cs * (1 - 1 / 2 ^ 23)"
      "- cs < y" "y < of_int (grid_height_f32 g) * cs * (1 - 1 / 2 ^ 23)"
      "- cs < z" "z < of_int (grid_depth_f32 g) * cs * (1 - 1 / 2 ^ 23)"
    using axis_inside_f32 [OF fl(1) cs(2,3) dims(1,2) that(1,2)]
      axis_inside_f32 [OF fl(2) cs(2,3) dims(3,4) that(3,4)]
      axis_inside_f32 [OF fl(3) cs(2,3) dims(5,6) that(5,6)] f
    by (auto simp: k get_cell_index_f32_inside)
  have C: "- cs < x \<and> x < of_int (grid_width_f32 g) * cs
           \<and> - cs < y \<and> y < of_int (grid_height_f32 g) * cs
           \<and> - cs < z \<and> z < of_int (grid_depth_f32 g) * cs"
    if "0 \<le> cell_of_f32 g (ps ! i)"
  proof -
    have r: "0 \<le> gx" "gx < grid_width_f32 g" "0 \<le> gy" "gy < grid_height_f32 g"
      "0 \<le> gz" "gz < grid_depth_f32 g"
      using that by (simp_all add: k get_cell_index_f32_inside)
    show ?thesis
      using axis_outside_f32 [OF cs(3) dims(1,2) f(1) r(1,2)]
        axis_outside_f32 [OF cs(3) dims(3,4) f(2) r(3,4)]
        axis_outside_f32 [OF cs(3) dims(5,6) f(3) r(5,6)]
      by simp
  qed
  define sps where "sps = map (unit_particle g) ps"
  from spatial_grid_update_f32_holds [OF wf np cap conv] obtain g' where
    u: "spatial_grid_update_f32 g ps cnt = Inr g'"
    and shape: "grid_width_f32 g' = grid_width_f32 g" "grid_height_f32 g' = grid_height_f32 g"
      "grid_depth_f32 g' = grid_depth_f32 g" "cell_size_f32 g' = cell_size_f32 g"
      "total_cells_f32 g' = total_cells_f32 g"
    and holds: "grid_holds (unit_grid g') sps (nat cnt)"
    unfolding sps_def by blast
  have cells: "cell_of (unit_grid g') (sps ! j) = cell_of_f32 g (ps ! j)" if "j < nat cnt" for j
  proof -
    have "sps ! j = unit_particle g (ps ! j)" using that np by (simp add: sps_def)
    then show ?thesis
      using unit_cell_of_shape [OF shape(1-3)] by (simp add: unit_cell_of)
  qed
  have same: "cell_of_f32 g' p = cell_of_f32 g p" for p
    by (simp only: cell_of_f32_def coords_f32_shape [OF shape(4)]
          index_f32_shape [OF shape(1-3)])
  have tc: "total_cells (unit_grid g') = total_cells_f32 g"
    using shape(5) by (simp add: unit_grid_def)
  have wf': "grid_wf (unit_grid g')" using holds by (simp add: grid_holds_def)
  have run: "cell_run_f32 g' c
             = map int (filter (\<lambda>j. cell_of_f32 g (ps ! j) = int c) [0..<nat cnt])"
    if "c < nat (total_cells_f32 g)" for c
  proof -
    have "cell_run (unit_grid g') c
          = map int (filter (\<lambda>j. cell_of (unit_grid g') (sps ! j) = int c) [0..<nat cnt])"
      using grid_holds_cell(4) [OF holds, of c] that by (simp add: tc)
    also have "\<dots> = map int (filter (\<lambda>j. cell_of_f32 g (ps ! j) = int c) [0..<nat cnt])"
      using cells by (intro arg_cong [where f = "map int"] filter_cong) simp_all
    finally show ?thesis by (simp add: unit_cell_run)
  qed
  have inside: "int i \<in> set (cell_run_f32 g' (nat (cell_of_f32 g (ps ! i))))"
    if "0 \<le> cell_of_f32 g (ps ! i)"
  proof -
    have "cell_of (unit_grid g') (sps ! i) < total_cells (unit_grid g')"
      using cell_of_range [OF wf'] by simp
    then have "nat (cell_of_f32 g (ps ! i)) < nat (total_cells_f32 g)"
      using that cells [OF i] tc by simp
    from run [OF this] show ?thesis using that i by simp
  qed
  have outside: "int i \<notin> set (cell_run_f32 g' c)"
    if "cell_of_f32 g (ps ! i) < 0" and "c < nat (total_cells_f32 g)" for c
    using run [OF that(2)] that(1) by auto
  have returned: "\<exists>buf' nc. spatial_grid_query_neighbors_f32 g' ps point radius buf = Inr (buf', nc)
                    \<and> int i \<in> set (take (nat nc) buf')"
    if "0 \<le> cell_of_f32 g (ps ! i)" and "in_block g point (position_f32 (ps ! i))"
      and "in_range_f32 ps point radius (int i)"
      and "length buf = nat MAX_NEIGHBORS"
      and "int (length (filter (\<lambda>j. in_range_f32 ps point radius (int j)) [0..<nat cnt]))
             \<le> MAX_NEIGHBORS"
    for point radius buf
  proof -
    have cells': "\<forall>j<nat cnt. cell_of (unit_grid g') (sps ! j) = cell_of_f32 g' (ps ! j)"
      using cells by (simp add: same)
    have in': "0 \<le> cell_of_f32 g' (ps ! i)" using that(1) by (simp add: same)
    have bl: "in_block g' point (position_f32 (ps ! i))"
      using that(2) by (simp only: in_block_def coords_f32_shape [OF shape(4)])
    from query_f32_returns [OF holds np cells' i in' bl that(3) that(4) that(5)]
    show ?thesis .
  qed
  show ?thesis
    using A B C c u inside outside returned by blast
qed


lemma edge_update: "spatial_grid_update_f32 edge_grid edge_ps 2 = Inr edge_built"
  by code_simp

theorem slightly_negative_position_kept_witness:
  "grid_wf_f32 edge_grid \<and> cell_size_f32 edge_grid = Finite 50
   \<and> is_float32 50 \<and> is_float32 (- 5) \<and> is_float32 10
   \<and> position_f32 (edge_ps ! 0) = \<lparr>xf = Finite (- 5), yf = Finite 10, zf = Finite 10\<rparr>
   \<and> (- 50 :: real) < - 5 \<and> (- 5 :: real) < 0
   \<and> get_grid_coords_f32 edge_grid (position_f32 (edge_ps ! 0)) = Inr (0, 0, 0)
   \<and> 0 \<le> cell_of_f32 edge_grid (edge_ps ! 0)
   \<and> spatial_grid_update_f32 edge_grid edge_ps 2 = Inr edge_built
   \<and> int 0 \<in> set (cell_run_f32 edge_built (nat (cell_of_f32 edge_grid (edge_ps ! 0))))
   \<and> spatial_grid_query_neighbors_f32 edge_built edge_ps
        \<lparr>xf = Finite 1, yf = Finite 1, zf = Finite 1\<rparr> (Finite 20) (replicate 10 0)
      = Inr ([0, 1, 0, 0, 0, 0, 0, 0, 0, 0], 2)"
proof -
  have wf: "grid_wf_f32 edge_grid" by (simp add: grid_wf_f32_def edge_grid_def)
  have cs: "cell_size_f32 edge_grid = Finite 50" by (simp add: edge_grid_def)
  have fl: "is_float32 50" "is_float32 (- 5)" "is_float32 10" by code_simp+
  have h: "(0 :: real) < 50" "1 \<le> grid_width_f32 edge_grid" "grid_width_f32 edge_grid \<le> 2 ^ 24"
    "1 \<le> grid_height_f32 edge_grid" "grid_height_f32 edge_grid \<le> 2 ^ 24"
    "1 \<le> grid_depth_f32 edge_grid" "grid_depth_f32 edge_grid \<le> 2 ^ 24"
    "nat 2 \<le> length edge_ps" "2 \<le> num_particles_f32 edge_grid" "0 < nat 2"
    by (simp_all add: edge_grid_def edge_ps_def)
  have conv: "\<forall>j<nat 2. convertible_f32 edge_grid (position_f32 (edge_ps ! j))" by code_simp
  have pos: "position_f32 (edge_ps ! 0) = \<lparr>xf = Finite (- 5), yf = Finite 10, zf = Finite 10\<rparr>"
    by (simp add: edge_ps_def still_at_f32_def)
  note T = slightly_negative_position_kept
             [OF wf cs fl(1) h(1-7) h(8) h(9) conv h(10) pos fl(2) fl(3) fl(3)]
  have b: "(- 50 :: real) < - 5" "(- 5 :: real) < 0" by simp_all
  have "(- 5 :: real) < of_int (grid_width_f32 edge_grid) * 50 * (1 - 1 / 2 ^ 23)"
    "(- 50 :: real) < 10"
    "(10 :: real) < of_int (grid_height_f32 edge_grid) * 50 * (1 - 1 / 2 ^ 23)"
    "(10 :: real) < of_int (grid_depth_f32 edge_grid) * 50 * (1 - 1 / 2 ^ 23)"
    by (simp_all add: edge_grid_def)
  then have inside: "0 \<le> cell_of_f32 edge_grid (edge_ps ! 0)"
    using T b by blast
  have run: "int 0 \<in> set (cell_run_f32 edge_built (nat (cell_of_f32 edge_grid (edge_ps ! 0))))"
    using T inside edge_update by auto
  have c: "get_grid_coords_f32 edge_grid (position_f32 (edge_ps ! 0)) = Inr (0, 0, 0)"
    by code_simp
  have q: "spatial_grid_query_neighbors_f32 edge_built edge_ps
             \<lparr>xf = Finite 1, yf = Finite 1, zf = Finite 1\<rparr> (Finite 20) (replicate 10 0)
           = Inr ([0, 1, 0, 0, 0, 0, 0, 0, 0, 0], 2)"
    by code_simp
  show ?thesis
    using wf cs fl pos b inside edge_update run c q by simp
qed

text \<open>
  C10, as stated: a particle is excluded from the grid only when a component is at or
  below \<open>- cell_size\<close> or at or beyond \<open>grid_dim * cell_size\<close>. The code rounds the quotient
  of the position by the cell size before it truncates it. In a row of nine cells of size
  0.1f, a particle at 0.9f has the quotient 9 - 5 / 13421773, which rounds to 9: the
  coordinate is 9, \<open>get_cell_index\<close> is -1 and \<open>spatial_grid_update\<close> leaves the particle
  out, although 0.9f is below nine cell sizes, both exactly and as binary32 computes
  \<open>9 * 0.1f\<close>.
\<close>

theorem position_below_extent_dropped_counterexample:
  "cell_size_f32 row_grid = Finite (13421773 / 2 ^ 27) \<and> grid_width_f32 row_grid = 9
   \<and> position_f32 (row_ps ! 0) = \<lparr>xf = Finite (7549747 / 2 ^ 23), yf = Finite 0, zf = Finite 0\<rparr>
   \<and> is_float32 (13421773 / 2 ^ 27) \<and> is_float32 (7549747 / 2 ^ 23)
   \<and> - (13421773 / 2 ^ 27) < (7549747 / 2 ^ 23 :: real)
   \<and> (7549747 / 2 ^ 23 :: real) < 9 * (13421773 / 2 ^ 27)
   \<and> f32_less (Finite (7549747 / 2 ^ 23)) (f32_mul (Finite 9) (Finite (13421773 / 2 ^ 27)))
   \<and> get_grid_coords_f32 row_grid (position_f32 (row_ps ! 0)) = Inr (9, 0, 0)
   \<and> cell_of_f32 row_grid (row_ps ! 0) = - 1
   \<and> spatial_grid_update_f32 row_grid row_ps 1 = Inr row_built
   \<and> cell_counts_f32 row_built = [0, 0, 0, 0, 0, 0, 0, 0, 0]"
proof -
  have a: "cell_size_f32 row_grid = Finite (13421773 / 2 ^ 27)" "grid_width_f32 row_grid = 9"
    "position_f32 (row_ps ! 0)
     = \<lparr>xf = Finite (7549747 / 2 ^ 23), yf = Finite 0, zf = Finite 0\<rparr>"
    "cell_counts_f32 row_built = [0, 0, 0, 0, 0, 0, 0, 0, 0]"
    by (simp_all add: row_grid_def row_ps_def row_built_def still_at_f32_def)
  have f: "is_float32 (13421773 / 2 ^ 27)" "is_float32 (7549747 / 2 ^ 23)" by code_simp+
  have b: "- (13421773 / 2 ^ 27) < (7549747 / 2 ^ 23 :: real)"
    "(7549747 / 2 ^ 23 :: real) < 9 * (13421773 / 2 ^ 27)"
    by simp_all
  have l: "f32_less (Finite (7549747 / 2 ^ 23)) (f32_mul (Finite 9) (Finite (13421773 / 2 ^ 27)))"
    by code_simp
  have c: "get_grid_coords_f32 row_grid (position_f32 (row_ps ! 0)) = Inr (9, 0, 0)"
    by code_simp
  have k: "cell_of_f32 row_grid (row_ps ! 0) = - 1" by code_simp
  have u: "spatial_grid_update_f32 row_grid row_ps 1 = Inr row_built" by code_simp
  show ?thesis using a f b l c k u by simp
qed

end
